theory Spec2Isabelle
  imports Main "HOL-Library.Sublist" "HOL-Library.List_Lexorder" "HOL-Library.Char_ord"
begin

section \<open>Python values, errors and string primitives\<close>

text \<open>
  The script \<^verbatim>\<open>carriero/featureReport.py\<close> is a straight-line program over a snapshot of
  nodes and jobs.  Every exception it can raise is a value of \<open>error\<close>; a function that may
  raise returns \<open>error + 'a\<close> with \<open>Inl\<close> for the exception, and an uncaught exception ends
  the run.  \<open>NotBoolExpr\<close> stands for the outcome of \<^verbatim>\<open>compile\<close> on a text that is not an
  expression of the Boolean fragment modelled below: Python either raises SyntaxError
  (the script prints a message and exits with status 1) or accepts an expression this
  development does not describe.
\<close>

datatype error =
  KeyError | IndexError | AttributeError | TypeError | NameError | UnboundLocalError | NotBoolExpr

text \<open>\<^verbatim>\<open>xs[i]\<close> for a non-negative index.\<close>

definition py_index :: "'a list \<Rightarrow> nat \<Rightarrow> error + 'a" where
  "py_index xs i = (if i < length xs then Inr (xs ! i) else Inl IndexError)"

text \<open>
  \<^verbatim>\<open>s.replace(old, new)\<close>: the occurrences of \<open>old\<close> are found from left to right and do
  not overlap; with an empty \<open>old\<close> Python puts \<open>new\<close> around every character.
\<close>

function (sequential) replace :: "string \<Rightarrow> string \<Rightarrow> string \<Rightarrow> string" where
  "replace [] new s = new @ concat (map (\<lambda>c. c # new) s)"
| "replace old new [] = []"
| "replace old new (c # cs) =
     (if prefix old (c # cs) then new @ replace old new (drop (length old) (c # cs))
      else c # replace old new cs)"
  by pat_completeness auto
termination
  by (relation "measure (\<lambda>(old, new, s). length s)") auto

text \<open>\<^verbatim>\<open>s.split(sep)\<close> for a one-character separator: never an empty list.\<close>

fun py_split :: "char \<Rightarrow> string \<Rightarrow> string list" where
  "py_split sep [] = [[]]"
| "py_split sep (c # cs) =
     (if c = sep then [] # py_split sep cs
      else (case py_split sep cs of w # ws \<Rightarrow> (c # w) # ws | [] \<Rightarrow> [[c]]))"

text \<open>\<^verbatim>\<open>s.split(sep, maxsplit)\<close>: at most \<open>maxsplit\<close> cuts, the rest stays in the last piece.\<close>

fun py_split_max :: "nat \<Rightarrow> char \<Rightarrow> string \<Rightarrow> string list" where
  "py_split_max 0 sep s = [s]"
| "py_split_max (Suc k) sep [] = [[]]"
| "py_split_max (Suc k) sep (c # cs) =
     (if c = sep then [] # py_split_max k sep cs
      else (case py_split_max (Suc k) sep cs of w # ws \<Rightarrow> (c # w) # ws | [] \<Rightarrow> [[c]]))"

text \<open>\<^verbatim>\<open>sep.join(xs)\<close>.\<close>

fun join :: "string \<Rightarrow> string list \<Rightarrow> string" where
  "join sep [] = []"
| "join sep [x] = x"
| "join sep (x # y # zs) = x @ sep @ join sep (y # zs)"

text \<open>A list comprehension whose elements may raise: the first exception wins.\<close>

fun collect :: "(error + 'a) list \<Rightarrow> error + 'a list" where
  "collect [] = Inr []"
| "collect (Inl e # rs) = Inl e"
| "collect (Inr x # rs) = (case collect rs of Inl e \<Rightarrow> Inl e | Inr xs \<Rightarrow> Inr (x # xs))"

section \<open>The snapshot: nodes and jobs\<close>

text \<open>
  A node is the dictionary pyslurm returns for it.  The \<^verbatim>\<open>features\<close> entry may be absent
  (\<open>None\<close> below), hold Python's \<^verbatim>\<open>None\<close> (\<open>FNone\<close>), one comma-separated string or a list
  of such strings; \<^verbatim>\<open>gres\<close> and \<^verbatim>\<open>gres_used\<close> are lists of descriptor strings.
\<close>

datatype feat = FNone | FStr string | FList "string list"

record node =
  name :: string
  features :: "feat option"
  gres :: "string list"
  gres_used :: "string list"
  state :: string
  cpus :: int
  alloc_cpus :: int

record job =
  partition :: string
  user_id :: nat

text \<open>
  \<open>nodes\<close> is \<^verbatim>\<open>nodes.values()\<close> in dictionary order; the dictionary is keyed by node name,
  so \<^verbatim>\<open>nodes[h]\<close> is the node of that name.  \<open>h2jj\<close> is the table of running jobs per
  host that lines 23-31 build with the scheduler's host-list parser, \<open>uid2user\<close> the
  table read from the users file.
\<close>

record env =
  nodes :: "node list"
  h2jj :: "string \<Rightarrow> job list"
  uid2user :: "nat \<rightharpoonup> string"

definition nodes_get :: "env \<Rightarrow> string \<Rightarrow> error + node" where
  "nodes_get E h = (case find (\<lambda>n. name n = h) (nodes E) of None \<Rightarrow> Inl KeyError | Some n \<Rightarrow> Inr n)"

section \<open>Feature and GRES extraction (lines 53-61)\<close>

definition getInfoFeatures :: "node \<Rightarrow> error + string list" where
  "getInfoFeatures n =
     (case features n of
        None \<Rightarrow> Inr []
      | Some FNone \<Rightarrow> Inl AttributeError
      | Some (FStr s) \<Rightarrow> Inr (py_split CHR '','' s)
      | Some (FList lfl) \<Rightarrow> Inr (concat (map (py_split CHR '','') lfl)))"

definition getInfoGres :: "node \<Rightarrow> error + string list" where
  "getInfoGres n =
     (if gres n = [] then Inr []
      else collect (map (\<lambda>g. py_index (py_split_max 2 CHR '':'' g) 1)
                        (concat (map (py_split CHR '','') (gres n)))))"

definition getInfo :: "bool \<Rightarrow> node \<Rightarrow> error + string list" where
  "getInfo use_gres n = (if use_gres then getInfoGres n else getInfoFeatures n)"

section \<open>The expression (lines 72-84)\<close>

text \<open>
  \<^verbatim>\<open>compile(..., 'eval')\<close> and \<^verbatim>\<open>eval\<close> are Python's own.  They are modelled on the
  Boolean fragment of Python expressions: names, \<^verbatim>\<open>True\<close>, \<^verbatim>\<open>False\<close>, \<^verbatim>\<open>not\<close>,
  \<^verbatim>\<open>and\<close>, \<^verbatim>\<open>or\<close> and parentheses, words separated by blanks.
\<close>

datatype expr =
  Constant bool | Name string | UnaryNot expr | BoolAnd expr expr | BoolOr expr expr

datatype token = LPAR | RPAR | KW_and | KW_or | KW_not | KW_True | KW_False | NAME string

definition ident_char :: "char \<Rightarrow> bool" where
  "ident_char c \<longleftrightarrow>
     c \<in> set ''abcdefghijklmnopqrstuvwxyzABCDEFGHIJKLMNOPQRSTUVWXYZ0123456789_''"

definition digit :: "char \<Rightarrow> bool" where
  "digit c \<longleftrightarrow> c \<in> set ''0123456789''"

text \<open>
  The other keywords of Python, and \<^verbatim>\<open>__debug__\<close>, which compiles to a constant: a text
  that uses one of them is outside the fragment.
\<close>

definition other_keywords :: "string list" where
  "other_keywords =
     [''__debug__'', ''None'', ''as'', ''assert'', ''async'', ''await'', ''break'', ''class'', ''continue'',
      ''def'', ''del'', ''elif'', ''else'', ''except'', ''finally'', ''for'', ''from'',
      ''global'', ''if'', ''import'', ''in'', ''is'', ''lambda'', ''nonlocal'', ''pass'',
      ''raise'', ''return'', ''try'', ''while'', ''with'', ''yield'']"

definition word_token :: "string \<Rightarrow> token option" where
  "word_token w =
     (if w = ''and'' then Some KW_and
      else if w = ''or'' then Some KW_or
      else if w = ''not'' then Some KW_not
      else if w = ''True'' then Some KW_True
      else if w = ''False'' then Some KW_False
      else if w \<in> set other_keywords then None
      else if w = [] \<or> digit (hd w) then None
      else Some (NAME w))"

definition flush :: "string \<Rightarrow> token list option \<Rightarrow> token list option" where
  "flush w rest =
     (if w = [] then rest
      else (case word_token w of
              None \<Rightarrow> None
            | Some t \<Rightarrow> (case rest of None \<Rightarrow> None | Some ts \<Rightarrow> Some (t # ts))))"

fun tokenize :: "string \<Rightarrow> string \<Rightarrow> token list option" where
  "tokenize w [] = flush w (Some [])"
| "tokenize w (c # cs) =
     (if ident_char c then tokenize (w @ [c]) cs
      else if c = CHR '' '' then flush w (tokenize [] cs)
      else if c = CHR ''('' then flush w (map_option ((#) LPAR) (tokenize [] cs))
      else if c = CHR '')'' then flush w (map_option ((#) RPAR) (tokenize [] cs))
      else None)"

datatype opr = OLpar | ONot | OAnd | OOr

fun apply_opr :: "opr \<Rightarrow> expr list \<Rightarrow> expr list option" where
  "apply_opr ONot (e # es) = Some (UnaryNot e # es)"
| "apply_opr OAnd (r # l # es) = Some (BoolAnd l r # es)"
| "apply_opr OOr (r # l # es) = Some (BoolOr l r # es)"
| "apply_opr _ _ = None"

text \<open>Pop and apply the operators on top of the stack that bind at least as tightly.\<close>

fun reduce :: "(opr \<Rightarrow> bool) \<Rightarrow> opr list \<Rightarrow> expr list \<Rightarrow> (opr list \<times> expr list) option" where
  "reduce p [] es = Some ([], es)"
| "reduce p (b # bs) es =
     (if p b then (case apply_opr b es of None \<Rightarrow> None | Some es' \<Rightarrow> reduce p bs es')
      else Some (b # bs, es))"

text \<open>
  Operator-precedence parsing, \<^verbatim>\<open>not\<close> above \<^verbatim>\<open>and\<close> above \<^verbatim>\<open>or\<close>.  The flag says
  whether an operand is expected next.
\<close>

fun parse :: "bool \<Rightarrow> opr list \<Rightarrow> expr list \<Rightarrow> token list \<Rightarrow> expr option" where
  "parse True bs es (NAME x # ts) = parse False bs (Name x # es) ts"
| "parse True bs es (KW_True # ts) = parse False bs (Constant True # es) ts"
| "parse True bs es (KW_False # ts) = parse False bs (Constant False # es) ts"
| "parse True bs es (KW_not # ts) = parse True (ONot # bs) es ts"
| "parse True bs es (LPAR # ts) = parse True (OLpar # bs) es ts"
| "parse True bs es _ = None"
| "parse False bs es (KW_and # ts) =
     (case reduce (\<lambda>b. b = ONot \<or> b = OAnd) bs es of
        None \<Rightarrow> None
      | Some (bs', es') \<Rightarrow> parse True (OAnd # bs') es' ts)"
| "parse False bs es (KW_or # ts) =
     (case reduce (\<lambda>b. b \<noteq> OLpar) bs es of
        None \<Rightarrow> None
      | Some (bs', es') \<Rightarrow> parse True (OOr # bs') es' ts)"
| "parse False bs es (RPAR # ts) =
     (case reduce (\<lambda>b. b \<noteq> OLpar) bs es of
        Some (OLpar # bs', es') \<Rightarrow> parse False bs' es' ts
      | _ \<Rightarrow> None)"
| "parse False bs es [] =
     (case reduce (\<lambda>b. b \<noteq> OLpar) bs es of
        Some ([], [e]) \<Rightarrow> Some e
      | _ \<Rightarrow> None)"
| "parse False bs es _ = None"

text \<open>\<^verbatim>\<open>compile\<close> does not accept leading blanks in \<^verbatim>\<open>'eval'\<close> mode.\<close>

definition py_compile :: "string \<Rightarrow> error + expr" where
  "py_compile src =
     (if prefix '' '' src then Inl NotBoolExpr
      else (case tokenize [] src of
              None \<Rightarrow> Inl NotBoolExpr
            | Some ts \<Rightarrow> (case parse True [] [] ts of None \<Rightarrow> Inl NotBoolExpr | Some e \<Rightarrow> Inr e)))"

text \<open>\<^verbatim>\<open>fexp.co_names\<close>: the names of the expression, each once, in order of first use.\<close>

fun expr_names :: "expr \<Rightarrow> string list" where
  "expr_names (Constant b) = []"
| "expr_names (Name x) = [x]"
| "expr_names (UnaryNot e) = expr_names e"
| "expr_names (BoolAnd l r) = expr_names l @ expr_names r"
| "expr_names (BoolOr l r) = expr_names l @ expr_names r"

definition co_names :: "expr \<Rightarrow> string list" where
  "co_names e = rev (remdups (rev (expr_names e)))"

text \<open>
  \<^verbatim>\<open>eval(fexp, {'__builtins__': None}, locals)\<close>: a name is looked up in \<open>locals\<close> only,
  \<^verbatim>\<open>and\<close> and \<^verbatim>\<open>or\<close> evaluate their right operand only when needed.
\<close>

fun eval :: "expr \<Rightarrow> (string \<rightharpoonup> bool) \<Rightarrow> error + bool" where
  "eval (Constant b) locals = Inr b"
| "eval (Name x) locals = (case locals x of None \<Rightarrow> Inl NameError | Some b \<Rightarrow> Inr b)"
| "eval (UnaryNot e) locals = (case eval e locals of Inl err \<Rightarrow> Inl err | Inr b \<Rightarrow> Inr (\<not> b))"
| "eval (BoolAnd l r) locals =
     (case eval l locals of Inl err \<Rightarrow> Inl err | Inr b \<Rightarrow> if b then eval r locals else Inr False)"
| "eval (BoolOr l r) locals =
     (case eval l locals of Inl err \<Rightarrow> Inl err | Inr b \<Rightarrow> if b then Inr True else eval r locals)"

text \<open>Lines 72-75 and 79: the expression text and its sanitized form.\<close>

definition features_text :: "string list \<Rightarrow> string" where
  "features_text fs = (if fs = [] then ''True'' else join '' '' fs)"

definition sanitize :: "string \<Rightarrow> string" where
  "sanitize s =
     replace '':'' ''___colon___'' (replace ''+'' ''___plus___'' (replace ''-'' ''___minus___'' s))"

text \<open>Line 94: the text a free variable stands for.\<close>

definition unsanitize :: "string \<Rightarrow> string" where
  "unsanitize f =
     replace ''___colon___'' '':'' (replace ''___plus___'' ''+'' (replace ''___minus___'' ''-'' f))"

definition compile_features :: "string list \<Rightarrow> error + expr" where
  "compile_features fs = py_compile (sanitize (features_text fs))"

section \<open>Selecting and bucketing the nodes (lines 86-109)\<close>

text \<open>
  A host list of the scheduler library, as the list of its host names: \<^verbatim>\<open>push\<close> appends a
  name, \<^verbatim>\<open>uniq\<close> sorts the list and drops repeated names, \<^verbatim>\<open>count\<close> is its length and
  \<^verbatim>\<open>get_list\<close> its names.  (The library orders names with numeric suffixes by number; the
  order is taken here as the order of strings.  Node names are plain names, which
  \<^verbatim>\<open>push\<close> does not expand.)
\<close>

type_synonym hostlist = "string list"

definition hl_push :: "hostlist \<Rightarrow> string \<Rightarrow> hostlist" where
  "hl_push hl h = hl @ [h]"

definition hl_uniq :: "hostlist \<Rightarrow> hostlist" where
  "hl_uniq hl = remdups (sort hl)"

definition hl_count :: "hostlist \<Rightarrow> nat" where
  "hl_count hl = length hl"

text \<open>
  A \<^verbatim>\<open>defaultdict(inithl)\<close> as an association list in order of first use;
  \<open>dd_push k h d\<close> is \<^verbatim>\<open>d[k].push(h)\<close>.  The two nested dictionaries are keyed by the
  pair of their two keys.
\<close>

fun dd_push :: "'k \<Rightarrow> string \<Rightarrow> ('k \<times> hostlist) list \<Rightarrow> ('k \<times> hostlist) list" where
  "dd_push k h [] = [(k, hl_push [] h)]"
| "dd_push k h ((k', hl) # rest) =
     (if k' = k then (k', hl_push hl h) # rest else (k', hl) # dd_push k h rest)"

record buckets =
  state2hl :: "(string \<times> hostlist) list"
  state2f02hl :: "((string \<times> string) \<times> hostlist) list"
  state2gres2hl :: "((string \<times> string) \<times> hostlist) list"

definition no_buckets :: buckets where
  "no_buckets = \<lparr>state2hl = [], state2f02hl = [], state2gres2hl = []\<rparr>"

text \<open>Line 94: every free variable is bound to the membership of its text in the token set.\<close>

definition bind_locals :: "string list \<Rightarrow> string set \<Rightarrow> (string \<rightharpoonup> bool)" where
  "bind_locals fs ns = map_of (map (\<lambda>f. (f, unsanitize f \<in> ns)) fs)"

text \<open>Lines 93-95: does the node take part in the report?\<close>

definition qualifies :: "bool \<Rightarrow> expr \<Rightarrow> node \<Rightarrow> error + bool" where
  "qualifies use_gres fexp n =
     (case getInfo use_gres n of
        Inl e \<Rightarrow> Inl e
      | Inr toks \<Rightarrow> eval fexp (bind_locals (co_names fexp) (set toks)))"

text \<open>Line 98.\<close>

definition norm_state :: "string \<Rightarrow> string" where
  "norm_state s = replace ''@'' [] (replace ''+POWER'' [] s)"

text \<open>Lines 100-103: \<^verbatim>\<open>n['features'].split(',')\<close> needs the entry to be a string.\<close>

definition primary_feature :: "node \<Rightarrow> error + string" where
  "primary_feature n =
     (case features n of
        None \<Rightarrow> Inl KeyError
      | Some FNone \<Rightarrow> Inl AttributeError
      | Some (FList lfl) \<Rightarrow> Inl AttributeError
      | Some (FStr s) \<Rightarrow>
          (let ff = py_split CHR '','' s in
           case py_index ff 0 of
             Inl e \<Rightarrow> Inl e
           | Inr feature \<Rightarrow> if feature = ''location=local'' then py_index ff 1 else Inr feature))"

text \<open>
  Lines 96-109, the body of the loop for a node that qualifies.  Python walks the set
  \<^verbatim>\<open>gs\<close> in an order of its own; here it is the order of \<open>remdups\<close>.  Each element of the
  set names another bucket, so the order only decides the order of the dictionary's keys,
  which the report sorts.
\<close>

definition record_node :: "bool \<Rightarrow> node \<Rightarrow> buckets \<Rightarrow> error + buckets" where
  "record_node use_gres n B =
     (let node_name = name n;
          s = norm_state (state n);
          B1 = B\<lparr>state2hl := dd_push s node_name (state2hl B)\<rparr>
      in case primary_feature n of
           Inl e \<Rightarrow> Inl e
         | Inr feature \<Rightarrow>
             (let B2 = B1\<lparr>state2f02hl := dd_push (s, feature) node_name (state2f02hl B1)\<rparr>
              in if use_gres then Inr B2
                 else (case getInfoGres n of
                         Inl e \<Rightarrow> Inl e
                       | Inr gs \<Rightarrow>
                           Inr (B2\<lparr>state2gres2hl :=
                                  foldl (\<lambda>d g. if g \<noteq> [] then dd_push (s, g) node_name d else d)
                                        (state2gres2hl B2) (remdups gs)\<rparr>))))"

fun populate :: "bool \<Rightarrow> expr \<Rightarrow> node list \<Rightarrow> buckets \<Rightarrow> error + buckets" where
  "populate use_gres fexp [] B = Inr B"
| "populate use_gres fexp (n # ns) B =
     (case qualifies use_gres fexp n of
        Inl e \<Rightarrow> Inl e
      | Inr q \<Rightarrow>
          if q then (case record_node use_gres n B of
                       Inl e \<Rightarrow> Inl e
                     | Inr B' \<Rightarrow> populate use_gres fexp ns B')
          else populate use_gres fexp ns B)"

section \<open>Summing a bucket (lines 120-159)\<close>

text \<open>
  \<^verbatim>\<open>gpuCountRe = re.compile(r'gpu:[^:]+:([0-9]+)')\<close>.  A match at the head of a text is
  \<^verbatim>\<open>gpu:\<close>, the longest run of characters other than a colon, which must not be empty
  and must end at a colon, and the longest run of digits after it, which must not be
  empty; \<^verbatim>\<open>search\<close> takes the leftmost match, and the result is group 1.
\<close>

definition gpuCountRe_match :: "string \<Rightarrow> string option" where
  "gpuCountRe_match s =
     (if prefix ''gpu:'' s then
        (let r = drop 4 s;
             ty = takeWhile (\<lambda>c. c \<noteq> CHR '':'') r;
             rest = dropWhile (\<lambda>c. c \<noteq> CHR '':'') r
         in if ty = [] \<or> rest = [] then None
            else (let ds = takeWhile digit (tl rest) in if ds = [] then None else Some ds))
      else None)"

fun gpuCountRe_search :: "string \<Rightarrow> string option" where
  "gpuCountRe_search [] = None"
| "gpuCountRe_search (c # cs) =
     (case gpuCountRe_match (c # cs) of Some ds \<Rightarrow> Some ds | None \<Rightarrow> gpuCountRe_search cs)"

text \<open>\<^verbatim>\<open>int(ds)\<close> for a text of decimal digits.\<close>

definition digit_val :: "char \<Rightarrow> nat" where
  "digit_val c = length (takeWhile (\<lambda>d. d \<noteq> c) ''0123456789'')"

definition py_int :: "string \<Rightarrow> nat" where
  "py_int ds = foldl (\<lambda>a c. 10 * a + digit_val c) 0 ds"

text \<open>\<^verbatim>\<open>int(gpuCountRe.search(g).group(1))\<close>: \<open>None\<close> when the search finds nothing.\<close>

definition gpu_count :: "string \<Rightarrow> nat option" where
  "gpu_count g = map_option py_int (gpuCountRe_search g)"

text \<open>\<^verbatim>\<open>str(n)\<close> for the label \<^verbatim>\<open>f'user_{j["user_id"]}'\<close>.\<close>

function show_nat :: "nat \<Rightarrow> string" where
  "show_nat n =
     (if n < 10 then [''0123456789'' ! n]
      else show_nat (n div 10) @ [''0123456789'' ! (n mod 10)])"
  by pat_completeness auto
termination
  by (relation "measure id") auto

datatype count_by = ByPartition | ByUser

text \<open>What the script writes to standard error.\<close>

datatype diag =
  UnknownUser job
| Skipping string string "string list" "string list"

definition get_partition :: "job \<Rightarrow> string" where
  "get_partition j = partition j"

definition get_user :: "env \<Rightarrow> job \<Rightarrow> string \<times> diag list" where
  "get_user E j =
     (case uid2user E (user_id j) of
        Some user \<Rightarrow> (user, [])
      | None \<Rightarrow> (''user_'' @ show_nat (user_id j), [UnknownUser j]))"

text \<open>\<^verbatim>\<open>cb2jc[k] += 1\<close> on a \<^verbatim>\<open>defaultdict(int)\<close>.\<close>

fun incr :: "string \<Rightarrow> (string \<times> nat) list \<Rightarrow> (string \<times> nat) list" where
  "incr k [] = [(k, 1)]"
| "incr k ((k', c) # rest) = (if k' = k then (k', c + 1) # rest else (k', c) # incr k rest)"

text \<open>
  The local variables of \<^verbatim>\<open>summarize_hl\<close>.  \<open>var_gres\<close> and \<open>var_gres_used\<close> are the two
  loop variables, which are unbound (\<open>None\<close>) until a loop assigns them and keep their
  value from one host to the next.
\<close>

record acc =
  tot_cpus :: int
  tot_cpus_allocated :: int
  tot_gpus :: int
  tot_gpus_allocated :: int
  cb2jc :: "(string \<times> nat) list"
  var_gres :: "string option"
  var_gres_used :: "string option"
  stderr :: "diag list"

definition acc0 :: "diag list \<Rightarrow> acc" where
  "acc0 err = \<lparr>tot_cpus = 0, tot_cpus_allocated = 0, tot_gpus = 0, tot_gpus_allocated = 0,
               cb2jc = [], var_gres = None, var_gres_used = None, stderr = err\<rparr>"

text \<open>Lines 139-142.\<close>

definition count_jobs :: "env \<Rightarrow> count_by option \<Rightarrow> string \<Rightarrow> acc \<Rightarrow> acc" where
  "count_jobs E cb h a =
     (case cb of
        None \<Rightarrow> a
      | Some ByPartition \<Rightarrow> foldl (\<lambda>a j. a\<lparr>cb2jc := incr (get_partition j) (cb2jc a)\<rparr>) a (h2jj E h)
      | Some ByUser \<Rightarrow>
          foldl (\<lambda>a j. case get_user E j of
                          (user, d) \<Rightarrow> a\<lparr>cb2jc := incr user (cb2jc a), stderr := stderr a @ d\<rparr>)
                a (h2jj E h))"

text \<open>
  Line 146.  On a string \<^verbatim>\<open>in\<close> looks for a substring, on a list for an element.
\<close>

definition gpu_signal :: "feat option \<Rightarrow> error + bool" where
  "gpu_signal f =
     (case f of
        None \<Rightarrow> Inl KeyError
      | Some FNone \<Rightarrow> Inl TypeError
      | Some (FStr s) \<Rightarrow> Inr (sublist ''gpu'' s \<or> sublist ''amdgpu'' s \<or> sublist ''gh'' s)
      | Some (FList lfl) \<Rightarrow> Inr (''gpu'' \<in> set lfl \<or> ''amdgpu'' \<in> set lfl \<or> ''gh'' \<in> set lfl))"

text \<open>
  Lines 150-153: the value of \<open>x\<close> after
  \<^verbatim>\<open>for x in xs: if x.startswith('gpu'): break\<close>, where \<open>v\<close> is its value before.
\<close>

fun loop_var :: "string option \<Rightarrow> string list \<Rightarrow> string option" where
  "loop_var v [] = v"
| "loop_var v (x # xs) = (if prefix ''gpu'' x then Some x else loop_var (Some x) xs)"

text \<open>
  Lines 139-158, the body of the loop for one host.  The handler of line 158 formats
  \<^verbatim>\<open>gres_used\<close>, so it raises in turn when that variable is unbound.
\<close>

definition tally_host :: "env \<Rightarrow> count_by option \<Rightarrow> acc \<Rightarrow> string \<Rightarrow> error + acc" where
  "tally_host E cb a h =
     (let a1 = count_jobs E cb h a in
      case nodes_get E h of
        Inl e \<Rightarrow> Inl e
      | Inr node \<Rightarrow>
          (let a2 = a1\<lparr>tot_cpus := tot_cpus a1 + cpus node,
                       tot_cpus_allocated := tot_cpus_allocated a1 + alloc_cpus node\<rparr>
           in case gpu_signal (features node) of
                Inl e \<Rightarrow> Inl e
              | Inr sig \<Rightarrow>
                  if \<not> sig then Inr a2
                  else
                    (let a3 = a2\<lparr>var_gres := loop_var (var_gres a2) (gres node),
                                 var_gres_used := loop_var (var_gres_used a2) (gres_used node)\<rparr>
                     in case var_gres a3 of
                          None \<Rightarrow> Inl UnboundLocalError
                        | Some g \<Rightarrow>
                            (case gpu_count g of
                               None \<Rightarrow> Inl AttributeError
                             | Some k \<Rightarrow>
                                 (let a4 = a3\<lparr>tot_gpus := tot_gpus a3 + int k\<rparr>
                                  in case var_gres_used a4 of
                                       None \<Rightarrow> Inl UnboundLocalError
                                     | Some u \<Rightarrow>
                                         (case gpu_count u of
                                            None \<Rightarrow>
                                              Inr (a4\<lparr>stderr := stderr a4 @
                                                     [Skipping h u (gres node) (gres_used node)]\<rparr>)
                                          | Some k' \<Rightarrow>
                                              Inr (a4\<lparr>tot_gpus_allocated :=
                                                         tot_gpus_allocated a4 + int k'\<rparr>)))))))"

fun tally_hosts :: "env \<Rightarrow> count_by option \<Rightarrow> acc \<Rightarrow> string list \<Rightarrow> error + acc" where
  "tally_hosts E cb a [] = Inr a"
| "tally_hosts E cb a (h # hs) =
     (case tally_host E cb a h of Inl e \<Rightarrow> Inl e | Inr a' \<Rightarrow> tally_hosts E cb a' hs)"

text \<open>\<open>err\<close> is what standard error holds when the function is called.\<close>

definition summarize_hl :: "env \<Rightarrow> hostlist \<Rightarrow> count_by option \<Rightarrow> diag list \<Rightarrow> error + acc" where
  "summarize_hl E hl cb err = tally_hosts E cb (acc0 err) hl"

section \<open>The report (lines 166-206)\<close>

record args =
  args_gres :: bool
  args_node_lists :: bool
  args_summarize :: "count_by option"
  args_verbose :: bool
  args_features :: "string list"

text \<open>
  A printed line, as the values it is formatted from: the key, the node count, the CPU
  figures, the GPU figures when they are printed, the job counts and the hosts when they
  are asked for.
\<close>

record row =
  label :: string
  num :: nat
  row_cpus :: int
  row_cpus_allocated :: int
  gpu_info :: "(int \<times> int) option"
  job_counts :: "(string \<times> nat) list"
  hosts :: "hostlist option"

definition gpu_info_of :: "acc \<Rightarrow> (int \<times> int) option" where
  "gpu_info_of a = (if tot_gpus a \<noteq> 0 then Some (tot_gpus a, tot_gpus_allocated a) else None)"

definition mk_row :: "args \<Rightarrow> string \<Rightarrow> hostlist \<Rightarrow> acc \<Rightarrow> (int \<times> int) option \<Rightarrow> row" where
  "mk_row A k hl a gi =
     \<lparr>label = k, num = hl_count hl, row_cpus = tot_cpus a,
      row_cpus_allocated = tot_cpus_allocated a, gpu_info = gi, job_counts = cb2jc a,
      hosts = (if args_node_lists A then Some hl else None)\<rparr>"

text \<open>\<^verbatim>\<open>sorted(d[s].items())\<close> for a nested dictionary \<open>d\<close>.\<close>

definition items_of :: "string \<Rightarrow> ((string \<times> string) \<times> hostlist) list \<Rightarrow> (string \<times> hostlist) list" where
  "items_of s d = sort_key fst (map (\<lambda>((s', k), hl). (k, hl)) (filter (\<lambda>((s', k), hl). s' = s) d))"

text \<open>
  Lines 185-191.  The GPU figures printed on these lines are those of the state line
  above them (\<open>gi\<close>).
\<close>

fun feature_rows ::
  "env \<Rightarrow> args \<Rightarrow> nat \<Rightarrow> (int \<times> int) option \<Rightarrow> (string \<times> hostlist) list \<Rightarrow> diag list
     \<Rightarrow> error + (row list \<times> diag list)" where
  "feature_rows E A num_nodes gi [] err = Inr ([], err)"
| "feature_rows E A num_nodes gi ((feature, fhl) # rest) err =
     (let fhl' = hl_uniq fhl; c = hl_count fhl' in
      if feature = ''gpu'' then feature_rows E A num_nodes gi rest err
      else if \<not> args_verbose A \<and> num_nodes = c then feature_rows E A num_nodes gi rest err
      else (case summarize_hl E fhl' (args_summarize A) err of
              Inl e \<Rightarrow> Inl e
            | Inr a \<Rightarrow>
                (case feature_rows E A num_nodes gi rest (stderr a) of
                   Inl e \<Rightarrow> Inl e
                 | Inr (rows, err') \<Rightarrow> Inr (mk_row A feature fhl' a gi # rows, err'))))"

text \<open>Lines 193-201.\<close>

fun gres_rows ::
  "env \<Rightarrow> args \<Rightarrow> nat \<Rightarrow> (string \<times> hostlist) list \<Rightarrow> diag list
     \<Rightarrow> error + (row list \<times> diag list)" where
  "gres_rows E A num_nodes [] err = Inr ([], err)"
| "gres_rows E A num_nodes ((g, ghl) # rest) err =
     (let ghl' = hl_uniq ghl; c = hl_count ghl' in
      if \<not> args_verbose A \<and> num_nodes = c then gres_rows E A num_nodes rest err
      else (case summarize_hl E ghl' (args_summarize A) err of
              Inl e \<Rightarrow> Inl e
            | Inr a \<Rightarrow>
                (case gres_rows E A num_nodes rest (stderr a) of
                   Inl e \<Rightarrow> Inl e
                 | Inr (rows, err') \<Rightarrow> Inr (mk_row A g ghl' a (gpu_info_of a) # rows, err'))))"

text \<open>
  The report: per state its line, its feature lines and its resource lines, then the
  figures of the \<^verbatim>\<open>Total\<close> line, and what went to standard error.
\<close>

record report =
  blocks :: "(row \<times> row list \<times> row list) list"
  total_nodes :: nat
  total_cpus :: int
  total_cpus_allocated :: int
  total_gpus :: int
  total_gpus_allocated :: int
  errors :: "diag list"

definition report0 :: report where
  "report0 = \<lparr>blocks = [], total_nodes = 0, total_cpus = 0, total_cpus_allocated = 0,
              total_gpus = 0, total_gpus_allocated = 0, errors = []\<rparr>"

text \<open>Lines 167-201 for the states still to print.\<close>

fun state_rows :: "env \<Rightarrow> args \<Rightarrow> buckets \<Rightarrow> (string \<times> hostlist) list \<Rightarrow> report \<Rightarrow> error + report" where
  "state_rows E A B [] R = Inr R"
| "state_rows E A B ((s, hl) # rest) R =
     (let hl' = hl_uniq hl; num_nodes = hl_count hl' in
      case summarize_hl E hl' (args_summarize A) (errors R) of
        Inl e \<Rightarrow> Inl e
      | Inr a \<Rightarrow>
          (case feature_rows E A num_nodes (gpu_info_of a) (items_of s (state2f02hl B)) (stderr a) of
             Inl e \<Rightarrow> Inl e
           | Inr (frows, err1) \<Rightarrow>
               (case gres_rows E A num_nodes (items_of s (state2gres2hl B)) err1 of
                  Inl e \<Rightarrow> Inl e
                | Inr (grows, err2) \<Rightarrow>
                    state_rows E A B rest
                      (R\<lparr>blocks := blocks R @ [(mk_row A s hl' a (gpu_info_of a), frows, grows)],
                         total_nodes := total_nodes R + num_nodes,
                         total_cpus := total_cpus R + tot_cpus a,
                         total_cpus_allocated := total_cpus_allocated R + tot_cpus_allocated a,
                         total_gpus := total_gpus R + tot_gpus a,
                         total_gpus_allocated := total_gpus_allocated R + tot_gpus_allocated a,
                         errors := err2\<rparr>))))"

text \<open>
  The run without \<^verbatim>\<open>--list\<close>: compile the expression, bucket the nodes, print the
  report.
\<close>

definition run :: "args \<Rightarrow> env \<Rightarrow> error + report" where
  "run A E =
     (case compile_features (args_features A) of
        Inl e \<Rightarrow> Inl e
      | Inr fexp \<Rightarrow>
          (case populate (args_gres A) fexp (nodes E) no_buckets of
             Inl e \<Rightarrow> Inl e
           | Inr B \<Rightarrow> state_rows E A B (sort_key fst (state2hl B)) report0))"

section \<open>Predicates and sample data of the statements\<close>

text \<open>
  \<open>gap_after w rest\<close>: \<open>rest\<close> starts with a proper prefix of \<open>w\<close> that is followed by
  \<^verbatim>\<open>+\<close> or \<^verbatim>\<open>@\<close>.  \<open>split_power_marker s\<close>: somewhere in \<open>s\<close> a \<^verbatim>\<open>+\<close> is followed by a
  proper prefix of \<^verbatim>\<open>POWER\<close> and then by \<^verbatim>\<open>+\<close> or \<^verbatim>\<open>@\<close>, as in \<^verbatim>\<open>+PO+POWERWER\<close> and
  \<^verbatim>\<open>+PO@WER\<close>.
\<close>

fun gap_after :: "string \<Rightarrow> string \<Rightarrow> bool" where
  "gap_after [] rest = False"
| "gap_after (x # xs) [] = False"
| "gap_after (x # xs) (c # cs) = (c = CHR ''+'' \<or> c = CHR ''@'' \<or> (c = x \<and> gap_after xs cs))"

fun split_power_marker :: "string \<Rightarrow> bool" where
  "split_power_marker [] = False"
| "split_power_marker (c # cs) =
     ((c = CHR ''+'' \<and> gap_after ''POWER'' cs) \<or> split_power_marker cs)"

text \<open>\<open>colonless n\<close>: some comma-separated piece of a GRES descriptor of \<open>n\<close> has no colon.\<close>

definition colonless :: "node \<Rightarrow> bool" where
  "colonless n \<longleftrightarrow> (\<exists>d\<in>set (gres n). \<exists>g\<in>set (py_split CHR '','' d). CHR '':'' \<notin> set g)"

text \<open>\<open>bucket d k\<close> is the host list \<^verbatim>\<open>d[k]\<close>: the names pushed under \<open>k\<close>, in order.\<close>

definition bucket :: "('k \<times> hostlist) list \<Rightarrow> 'k \<Rightarrow> hostlist" where
  "bucket d k = (case map_of d k of None \<Rightarrow> [] | Some hl \<Rightarrow> hl)"

text \<open>
  \<open>tallies E A hl r a\<close>: the line \<open>r\<close> reports the bucket \<open>hl\<close>.  Its node count is the
  number of distinct names in \<open>hl\<close>, and its CPU figures and job counts are those of the
  summary \<open>a\<close> that \<^verbatim>\<open>summarize_hl\<close> returns for a list that holds every name of \<open>hl\<close>
  once.
\<close>

definition tallies :: "env \<Rightarrow> args \<Rightarrow> hostlist \<Rightarrow> row \<Rightarrow> acc \<Rightarrow> bool" where
  "tallies E A hl r a \<longleftrightarrow>
     num r = card (set hl) \<and>
     (\<exists>u err. distinct u \<and> set u = set hl \<and>
        summarize_hl E u (args_summarize A) err = Inr a \<and>
        row_cpus r = tot_cpus a \<and> row_cpus_allocated r = tot_cpus_allocated a \<and>
        job_counts r = cb2jc a)"

text \<open>
  \<open>block_ok E A B items b\<close>: the state line of the block \<open>b\<close> reports an entry of \<open>items\<close>,
  and its feature and resource lines report entries of the nested dictionaries of \<open>B\<close>.
\<close>

definition block_ok :: "env \<Rightarrow> args \<Rightarrow> buckets \<Rightarrow> (string \<times> hostlist) list \<Rightarrow> row \<times> row list \<times> row list \<Rightarrow> bool" where
  "block_ok E A B items b \<longleftrightarrow>
     (case b of (r, frs, grs) \<Rightarrow>
        (\<exists>hl a. (label r, hl) \<in> set items \<and> tallies E A hl r a \<and> gpu_info r = gpu_info_of a) \<and>
        (\<forall>fr\<in>set frs. \<exists>hl a. (label fr, hl) \<in> set (items_of (label r) (state2f02hl B)) \<and>
             tallies E A hl fr a \<and> gpu_info fr = gpu_info r) \<and>
        (\<forall>gr\<in>set grs. \<exists>hl a. (label gr, hl) \<in> set (items_of (label r) (state2gres2hl B)) \<and>
             tallies E A hl gr a \<and> gpu_info gr = gpu_info_of a))"

text \<open>The sample nodes of the comment at lines 35-46 of the script, as a snapshot.\<close>

definition workergpu046 :: node where
  "workergpu046 = \<lparr>name = ''workergpu046'', features = Some (FStr ''gpu,skylake,v100''),
     gres = [''gpu:v100-16gb:2(S:0-1)''], gres_used = [''gpu:v100-16gb:0(IDX:N/A)''],
     state = ''IDLE'', cpus = 40, alloc_cpus = 0\<rparr>"

definition workergpu055 :: node where
  "workergpu055 = \<lparr>name = ''workergpu055'',
     features = Some (FStr ''gpu,skylake,v100,v100-32gb,nvlink,sxm2''),
     gres = [''gpu:v100-32gb:4(S:0-1)''], gres_used = [''gpu:v100-32gb:4(IDX:0-3)''],
     state = ''MIXED@'', cpus = 40, alloc_cpus = 22\<rparr>"

definition workergpu040 :: node where
  "workergpu040 = \<lparr>name = ''workergpu040'', features = Some (FStr ''gpu,cascadelake,v100,v100-32gb''),
     gres = [''gpu:v100s-32gb:4''], gres_used = [''gpu:v100s-32gb:0''],
     state = ''DOWN+DRAIN+POWER'', cpus = 48, alloc_cpus = 0\<rparr>"

definition worker5010 :: node where
  "worker5010 = \<lparr>name = ''worker5010'', features = Some (FStr ''rome,ib''),
     gres = [], gres_used = [''gpu:0''], state = ''MIXED'', cpus = 128, alloc_cpus = 48\<rparr>"

definition worker5073 :: node where
  "worker5073 = \<lparr>name = ''worker5073'', features = Some (FStr ''rome,ib''),
     gres = [], gres_used = [''gpu:0''], state = ''MIXED'', cpus = 128, alloc_cpus = 120\<rparr>"

definition sample_env :: env where
  "sample_env = \<lparr>nodes = [workergpu046, workergpu055, workergpu040, worker5010, worker5073],
     h2jj = (\<lambda>h. []), uid2user = Map.empty\<rparr>"

definition sample_args :: args where
  "sample_args = \<lparr>args_gres = False, args_node_lists = False, args_summarize = None,
     args_verbose = False, args_features = []\<rparr>"

text \<open>The report of the script for the sample snapshot and no expression.\<close>

definition sample_report :: report where
  "sample_report =
     \<lparr>blocks =
        [(\<lparr>label = ''DOWN+DRAIN'', num = 1, row_cpus = 48, row_cpus_allocated = 0,
           gpu_info = Some (4, 0), job_counts = [], hosts = None\<rparr>, [], []),
         (\<lparr>label = ''IDLE'', num = 1, row_cpus = 40, row_cpus_allocated = 0,
           gpu_info = Some (2, 0), job_counts = [], hosts = None\<rparr>, [], []),
         (\<lparr>label = ''MIXED'', num = 3, row_cpus = 296, row_cpus_allocated = 190,
           gpu_info = Some (4, 4), job_counts = [], hosts = None\<rparr>,
          [\<lparr>label = ''rome'', num = 2, row_cpus = 256, row_cpus_allocated = 168,
             gpu_info = Some (4, 4), job_counts = [], hosts = None\<rparr>],
          [\<lparr>label = ''v100-32gb'', num = 1, row_cpus = 40, row_cpus_allocated = 22,
             gpu_info = Some (4, 4), job_counts = [], hosts = None\<rparr>])],
      total_nodes = 5, total_cpus = 384, total_cpus_allocated = 190,
      total_gpus = 10, total_gpus_allocated = 4, errors = []\<rparr>"

text \<open>A node whose first feature is the location sentinel.\<close>

definition bright_node :: node where
  "bright_node = worker5010\<lparr>features := Some (FStr ''location=local,rome,ib'')\<rparr>"

text \<open>
  A GPU node whose GRES descriptor carries no type, a node without GPUs one of whose
  features contains the letters \<^verbatim>\<open>gh\<close>, and the first sample node reporting its GPUs in
  use without a type.
\<close>

definition untyped_gpu_node :: node where
  "untyped_gpu_node = \<lparr>name = ''workergpu001'', features = Some (FStr ''gpu,skylake''),
     gres = [''gpu:4''], gres_used = [''gpu:0''], state = ''IDLE'', cpus = 40, alloc_cpus = 0\<rparr>"

definition highmem_node :: node where
  "highmem_node = \<lparr>name = ''workermem01'', features = Some (FStr ''skylake,highmem''),
     gres = [], gres_used = [''gpu:0''], state = ''IDLE'', cpus = 128, alloc_cpus = 0\<rparr>"

definition odd_used_node :: node where
  "odd_used_node = workergpu046\<lparr>gres_used := [''gpu:0'']\<rparr>"

definition one_node :: "node \<Rightarrow> env" where
  "one_node n = \<lparr>nodes = [n], h2jj = (\<lambda>h. []), uid2user = Map.empty\<rparr>"

text \<open>
  A GPU node whose GRES lists are empty, and a snapshot of the first sample node and
  this node.
\<close>

definition bare_gpu_node :: node where
  "bare_gpu_node = \<lparr>name = ''workergpu047'', features = Some (FStr ''gpu,skylake,v100''),
     gres = [], gres_used = [], state = ''IDLE'', cpus = 40, alloc_cpus = 0\<rparr>"

definition two_gpu_nodes :: env where
  "two_gpu_nodes =
     \<lparr>nodes = [workergpu046, bare_gpu_node], h2jj = (\<lambda>h. []), uid2user = Map.empty\<rparr>"

text \<open>
  The value of an expression under a valuation of its names, by the truth tables of
  \<^verbatim>\<open>not\<close>, \<^verbatim>\<open>and\<close> and \<^verbatim>\<open>or\<close>.
\<close>

fun truth :: "expr \<Rightarrow> (string \<Rightarrow> bool) \<Rightarrow> bool" where
  "truth (Constant b) v = b"
| "truth (Name x) v = v x"
| "truth (UnaryNot e) v = (\<not> truth e v)"
| "truth (BoolAnd l r) v = (truth l v \<and> truth r v)"
| "truth (BoolOr l r) v = (truth l v \<or> truth r v)"

text \<open>
  An escape sequence is a word between two runs of three underscores; \<open>escaped c\<close> is
  what line 79 writes for the character \<open>c\<close>.  \<open>pieces pc\<close>: the substitution \<open>pc\<close> keeps
  a character or writes an escape sequence for it.
\<close>

definition block :: "string \<Rightarrow> string" where
  "block w = ''___'' @ w @ ''___''"

definition escaped :: "char \<Rightarrow> string" where
  "escaped c =
     (if c = CHR ''-'' then block ''minus''
      else if c = CHR ''+'' then block ''plus''
      else if c = CHR '':'' then block ''colon''
      else [c])"

definition pieces :: "(char \<Rightarrow> string) \<Rightarrow> bool" where
  "pieces pc \<longleftrightarrow> (\<forall>c. pc c = [c] \<or> (\<exists>w. pc c = block w))"

text \<open>The compiled form of the expression \<^verbatim>\<open>gpu and not v100-32gb\<close>.\<close>

definition sample_expr :: expr where
  "sample_expr = BoolAnd (Name ''gpu'') (UnaryNot (Name ''v100___minus___32gb''))"

text \<open>Two nodes, one with the feature \<^verbatim>\<open>a___minus___b\<close> and one with the feature \<^verbatim>\<open>a-b\<close>.\<close>

definition underscored_node :: node where
  "underscored_node = worker5010\<lparr>features := Some (FStr ''a___minus___b,ib'')\<rparr>"

definition dashed_node :: node where
  "dashed_node = worker5010\<lparr>features := Some (FStr ''a-b,ib'')\<rparr>"

section \<open>Properties: state normalization\<close>

lemma replace_keeps_prefix:
  assumes "a = CHR ''+'' \<or> a = CHR ''@''"
  shows "\<not> gap_after w cs \<Longrightarrow>
    (prefix w (replace (a # as) [] cs) \<longrightarrow> prefix w cs) \<and> \<not> gap_after w (replace (a # as) [] cs)"
proof (induction w arbitrary: cs)
  case Nil
  then show ?case by simp
next
  case (Cons x xs)
  show ?case
  proof (cases cs)
    case Nil
    then show ?thesis by simp
  next
    case (Cons c cs')
    with Cons.prems assms have np: "\<not> prefix (a # as) (c # cs')" by auto
    from Cons.prems Cons have "c = x \<Longrightarrow> \<not> gap_after xs cs'" by simp
    from Cons.IH[OF this] Cons.prems Cons np show ?thesis by auto
  qed
qed

lemma split_power_marker_drop: "split_power_marker (drop n s) \<Longrightarrow> split_power_marker s"
proof (induction s arbitrary: n)
  case Nil
  then show ?case by simp
next
  case (Cons c cs)
  then show ?case by (cases n) auto
qed

lemma strip_power_clean_aux:
  "old = ''+POWER'' \<Longrightarrow> new = [] \<Longrightarrow> \<not> split_power_marker s \<Longrightarrow>
     \<not> split_power_marker (replace old new s) \<and> \<not> sublist ''+POWER'' (replace old new s)"
proof (induction old new s rule: replace.induct)
  case (1 new s)
  then show ?case by simp
next
  case (2 v va new)
  then show ?case by simp
next
  case (3 v va new c cs)
  note old = \<open>v # va = ''+POWER''\<close> and new = \<open>new = []\<close>
  show ?case
  proof (cases "prefix (v # va) (c # cs)")
    case True
    from "3.prems" have "\<not> split_power_marker (drop (length (v # va)) (c # cs))"
      using split_power_marker_drop by blast
    with "3.IH"(1)[OF True old new] True new show ?thesis by simp
  next
    case False
    from "3.prems" have ncs: "\<not> split_power_marker cs" by simp
    note IH = "3.IH"(2)[OF False old new ncs]
    have g: "c = CHR ''+'' \<Longrightarrow> \<not> gap_after ''POWER'' cs" using "3.prems" by simp
    have k: "c = CHR ''+'' \<Longrightarrow>
        (prefix ''POWER'' (replace ''+POWER'' [] cs) \<longrightarrow> prefix ''POWER'' cs)
        \<and> \<not> gap_after ''POWER'' (replace ''+POWER'' [] cs)"
      using replace_keeps_prefix[of "CHR ''+''" "''POWER''" cs "''POWER''"] g by simp
    have np: "\<not> prefix ''+POWER'' (c # replace ''+POWER'' [] cs)"
      using k False unfolding old by auto
    have r: "replace (v # va) new (c # cs) = c # replace (v # va) new cs"
      by (simp only: replace.simps False if_False)
    show ?thesis unfolding r unfolding old new
      using IH k np ncs unfolding old new by (simp add: sublist_Cons_right)
  qed
qed

lemma strip_power_clean:
  "\<not> split_power_marker s \<Longrightarrow>
     \<not> split_power_marker (replace ''+POWER'' [] s) \<and> \<not> sublist ''+POWER'' (replace ''+POWER'' [] s)"
  by (rule strip_power_clean_aux) simp_all

lemma replace_chr: "replace [a] new s = concat (map (\<lambda>c. if c = a then new else [c]) s)"
  by (induction s) auto

lemma strip_at_clean:
  "\<not> split_power_marker t \<Longrightarrow> \<not> sublist ''+POWER'' t \<Longrightarrow> \<not> sublist ''+POWER'' (replace ''@'' [] t)"
proof (induction t)
  case Nil
  then show ?case by simp
next
  case (Cons c cs)
  from Cons.prems have a: "\<not> split_power_marker cs" "\<not> sublist ''+POWER'' cs" "\<not> prefix ''+POWER'' (c # cs)"
    by (simp_all add: sublist_Cons_right)
  note IH = Cons.IH[OF a(1,2)]
  show ?case
  proof (cases "c = CHR ''@''")
    case True
    then show ?thesis using IH by simp
  next
    case False
    have g: "c = CHR ''+'' \<Longrightarrow> \<not> gap_after ''POWER'' cs" using Cons.prems by simp
    have k: "c = CHR ''+'' \<Longrightarrow> (prefix ''POWER'' (replace ''@'' [] cs) \<longrightarrow> prefix ''POWER'' cs)"
      using replace_keeps_prefix[of "CHR ''@''" "''POWER''" cs "[]"] g by simp
    have np: "\<not> prefix ''+POWER'' (c # replace ''@'' [] cs)"
      using k a(3) by auto
    show ?thesis using IH np False by (simp add: sublist_Cons_right)
  qed
qed

lemma sublist_chr: "sublist [a] s \<longleftrightarrow> a \<in> set s"
  by (induction s) (auto simp: sublist_Cons_right)

text \<open>
  C4, as amended.  The state under which a node is bucketed never contains \<^verbatim>\<open>@\<close>.  It
  does not contain \<^verbatim>\<open>+POWER\<close> either, unless the raw state holds a \<^verbatim>\<open>+\<close> followed by a
  proper prefix of \<^verbatim>\<open>POWER\<close> and then by \<^verbatim>\<open>+\<close> or \<^verbatim>\<open>@\<close>: each marker is removed in one
  pass, and removing a marker there joins up a new \<^verbatim>\<open>+POWER\<close>.
\<close>

theorem norm_state_markers:
  "\<not> sublist ''@'' (norm_state s) \<and>
   (\<not> split_power_marker s \<longrightarrow> \<not> sublist ''+POWER'' (norm_state s))"
  unfolding norm_state_def
  using strip_power_clean[of s] strip_at_clean[of "replace ''+POWER'' [] s"]
  by (auto simp: sublist_chr replace_chr)

theorem norm_state_markers_witness:
  "\<not> split_power_marker ''DOWN+DRAIN+POWER'' \<and> norm_state ''DOWN+DRAIN+POWER'' = ''DOWN+DRAIN''
   \<and> \<not> sublist ''@'' (norm_state ''DOWN+DRAIN+POWER'')
   \<and> \<not> sublist ''+POWER'' (norm_state ''DOWN+DRAIN+POWER'')"
  using norm_state_markers[of "''DOWN+DRAIN+POWER''"] by (simp add: norm_state_def)

text \<open>C4 as stated fails: removing the inner marker of this state leaves a marker.\<close>

theorem norm_state_rejoined:
  "norm_state ''IDLE+PO+POWERWER'' = ''IDLE+POWER'' \<and> sublist ''+POWER'' (norm_state ''IDLE+PO+POWERWER'')"
  by (simp add: norm_state_def sublist_Cons_right)

section \<open>Properties: extraction\<close>

lemma py_split_ne: "py_split sep s \<noteq> []"
  by (induction s) (auto split: list.splits)

lemma py_split_max_ne: "py_split_max k sep s \<noteq> []"
  by (induction k sep s rule: py_split_max.induct) (auto split: list.splits)

lemma py_split_max_len: "1 < length (py_split_max (Suc k) sep s) \<longleftrightarrow> sep \<in> set s"
proof (induction s)
  case Nil
  then show ?case by simp
next
  case (Cons c cs)
  show ?case
  proof (cases "c = sep")
    case True
    then show ?thesis using py_split_max_ne[of k sep cs] by (cases "py_split_max k sep cs") auto
  next
    case False
    then show ?thesis using Cons py_split_max_ne[of "Suc k" sep cs]
      by (cases "py_split_max (Suc k) sep cs") auto
  qed
qed

lemma gres_type_error:
  "py_index (py_split_max 2 CHR '':'' g) 1 = Inl e \<longleftrightarrow> e = IndexError \<and> CHR '':'' \<notin> set g"
  using py_split_max_len[of 1 "CHR '':''" g] by (auto simp: py_index_def numeral_2_eq_2)

lemma collect_Inl: "collect rs = Inl e \<Longrightarrow> Inl e \<in> set rs"
  by (induction rs rule: collect.induct) (auto split: sum.splits)

lemma collect_fails: "(\<exists>e. collect rs = Inl e) \<longleftrightarrow> (\<exists>e. Inl e \<in> set rs)"
proof
  assume "\<exists>e. collect rs = Inl e"
  then show "\<exists>e. Inl e \<in> set rs" using collect_Inl by blast
next
  assume a: "\<exists>e. Inl e \<in> set rs"
  show "\<exists>e. collect rs = Inl e"
  proof (rule ccontr)
    assume "\<not> (\<exists>e. collect rs = Inl e)"
    then obtain xs where "collect rs = Inr xs" by (cases "collect rs") auto
    then have "\<forall>r\<in>set rs. \<exists>x. r = Inr x"
      by (induction rs arbitrary: xs rule: collect.induct) (auto split: sum.splits)
    with a show False by auto
  qed
qed

lemma getInfoGres_raises_iff: "(\<exists>e. getInfoGres n = Inl e) \<longleftrightarrow> colonless n"
proof (cases "gres n = []")
  case True
  then show ?thesis by (simp add: getInfoGres_def colonless_def)
next
  case False
  let ?frags = "concat (map (py_split CHR '','') (gres n))"
  let ?F = "\<lambda>g. py_index (py_split_max 2 CHR '':'' g) 1"
  have "(\<exists>e. getInfoGres n = Inl e) \<longleftrightarrow> (\<exists>e. Inl e \<in> set (map ?F ?frags))"
    using False collect_fails[of "map ?F ?frags"] by (simp add: getInfoGres_def)
  also have "\<dots> \<longleftrightarrow> (\<exists>g\<in>set ?frags. \<exists>e. ?F g = Inl e)"
    by (simp only: set_map image_iff) metis
  also have "\<dots> \<longleftrightarrow> (\<exists>g\<in>set ?frags. CHR '':'' \<notin> set g)"
    using gres_type_error by blast
  also have "\<dots> \<longleftrightarrow> colonless n"
    by (auto simp: colonless_def)
  finally show ?thesis .
qed

lemma getInfoGres_error: "getInfoGres n = Inl e \<Longrightarrow> e = IndexError"
  unfolding getInfoGres_def
  by (auto split: if_splits dest!: collect_Inl simp: py_index_def)

lemma getInfoGres_returns: "(\<exists>toks. getInfoGres n = Inr toks) \<longleftrightarrow> \<not> colonless n"
  using getInfoGres_raises_iff[of n] by (cases "getInfoGres n") auto

text \<open>
  C9, as amended.  The feature extractor returns the empty sequence when the node has no
  \<^verbatim>\<open>features\<close> entry, treats a single string as a list of that one string, and returns
  for every string or list of strings.  The GRES extractor returns the empty sequence
  for an empty descriptor list; it returns exactly when every comma-separated piece of
  every descriptor holds a colon, and raises IndexError otherwise.
\<close>

theorem extraction_total_except:
  "(features n = None \<longrightarrow> getInfoFeatures n = Inr []) \<and>
   (features n = Some (FStr s) \<longrightarrow>
      getInfoFeatures n = Inr (py_split CHR '','' s) \<and>
      getInfoFeatures n = getInfoFeatures (n\<lparr>features := Some (FList [s])\<rparr>)) \<and>
   (features n = Some (FList lfl) \<longrightarrow> (\<exists>toks. getInfoFeatures n = Inr toks)) \<and>
   (gres n = [] \<longrightarrow> getInfoGres n = Inr []) \<and>
   ((\<exists>toks. getInfoGres n = Inr toks) \<longleftrightarrow> \<not> colonless n) \<and>
   (colonless n \<longrightarrow> getInfoGres n = Inl IndexError)"
proof -
  have i: "colonless n \<longrightarrow> getInfoGres n = Inl IndexError"
    using getInfoGres_raises_iff[of n] getInfoGres_error[of n] by blast
  show ?thesis using getInfoGres_returns[of n] i by (auto simp: getInfoFeatures_def getInfoGres_def)
qed

theorem extraction_total_except_witness:
  "getInfoFeatures workergpu046 = Inr [''gpu'', ''skylake'', ''v100''] \<and>
   \<not> colonless workergpu046 \<and> getInfoGres workergpu046 = Inr [''v100-16gb''] \<and>
   getInfoGres worker5010 = Inr []"
  using extraction_total_except[of workergpu046 "''gpu,skylake,v100''"]
    extraction_total_except[of worker5010]
  by (simp add: workergpu046_def worker5010_def colonless_def getInfoGres_def py_index_def
        numeral_2_eq_2)

text \<open>C9 as stated fails: a descriptor without a colon makes the GRES extractor raise.\<close>

theorem getInfoGres_raises:
  "getInfoGres \<lparr>name = ''worker1'', features = Some (FStr ''rome,ib''), gres = [''gpu''],
      gres_used = [''gpu:0''], state = ''IDLE'', cpus = 128, alloc_cpus = 0\<rparr> = Inl IndexError"
  by (simp add: getInfoGres_def py_index_def numeral_2_eq_2)

section \<open>Properties: buckets\<close>

lemma bucket_dd_push:
  "bucket (dd_push k h d) k' = (if k' = k then bucket d k @ [h] else bucket d k')"
  by (induction d) (auto simp: bucket_def hl_push_def)

lemma keys_dd_push: "fst ` set (dd_push k h d) = insert k (fst ` set d)"
proof (induction d)
  case Nil
  then show ?case by simp
next
  case (Cons a d)
  obtain k' hl where a: "a = (k', hl)" by (cases a)
  show ?case using Cons unfolding a by (cases "k' = k") auto
qed

lemma distinct_dd_push: "distinct (map fst d) \<Longrightarrow> distinct (map fst (dd_push k h d))"
  by (induction d) (auto simp: keys_dd_push)

lemma size_dd_push:
  "sum_list (map (\<lambda>(k, hl). length hl) (dd_push k h d)) = Suc (sum_list (map (\<lambda>(k, hl). length hl) d))"
  by (induction d) (auto simp: hl_push_def)

lemma bucket_entry: "distinct (map fst d) \<Longrightarrow> (k, hl) \<in> set d \<Longrightarrow> bucket d k = hl"
  by (simp add: bucket_def)

lemma bucket_Nil: "bucket [] k = []"
  by (simp add: bucket_def)

lemma record_node_state2hl:
  "record_node use_gres n B = Inr B' \<Longrightarrow>
     state2hl B' = dd_push (norm_state (state n)) (name n) (state2hl B)"
  by (auto simp: record_node_def Let_def split: sum.splits if_splits)

lemma populate_state2hl:
  "populate use_gres fexp ns B = Inr B' \<Longrightarrow>
     bucket (state2hl B') s = bucket (state2hl B) s @
       map name (filter (\<lambda>n. qualifies use_gres fexp n = Inr True \<and> norm_state (state n) = s) ns)"
proof (induction ns arbitrary: B)
  case Nil
  then show ?case by simp
next
  case (Cons n ns)
  show ?case
  proof (cases "qualifies use_gres fexp n")
    case (Inl e)
    with Cons.prems show ?thesis by simp
  next
    case (Inr q)
    show ?thesis
    proof (cases q)
      case True
      with Inr Cons.prems obtain B1 where r: "record_node use_gres n B = Inr B1"
        and p: "populate use_gres fexp ns B1 = Inr B'"
        by (auto split: sum.splits)
      show ?thesis using Cons.IH[OF p] record_node_state2hl[OF r] Inr True
        by (auto simp: bucket_dd_push)
    next
      case False
      with Inr Cons.prems have p: "populate use_gres fexp ns B = Inr B'" by simp
      show ?thesis using Cons.IH[OF p] Inr False by auto
    qed
  qed
qed

lemma populate_keys:
  "populate use_gres fexp ns B = Inr B' \<Longrightarrow> distinct (map fst (state2hl B)) \<Longrightarrow>
     distinct (map fst (state2hl B'))"
proof (induction ns arbitrary: B)
  case Nil
  then show ?case by simp
next
  case (Cons n ns)
  then show ?case
    by (auto split: sum.splits if_splits dest!: record_node_state2hl simp: distinct_dd_push)
qed

lemma populate_size:
  "populate use_gres fexp ns B = Inr B' \<Longrightarrow>
     sum_list (map (\<lambda>(k, hl). length hl) (state2hl B')) =
     sum_list (map (\<lambda>(k, hl). length hl) (state2hl B)) +
       length (filter (\<lambda>n. qualifies use_gres fexp n = Inr True) ns)"
proof (induction ns arbitrary: B)
  case Nil
  then show ?case by simp
next
  case (Cons n ns)
  then show ?case
    by (auto split: sum.splits if_splits dest!: record_node_state2hl simp: size_dd_push)
qed

lemma populate_returns:
  "populate use_gres fexp ns B = Inr B' \<Longrightarrow> \<forall>n\<in>set ns. \<exists>q. qualifies use_gres fexp n = Inr q"
proof (induction ns arbitrary: B)
  case Nil
  then show ?case by simp
next
  case (Cons n ns)
  then show ?case by (auto split: sum.splits if_splits)
qed

lemma distinct_foldl_dd_push:
  "distinct (map fst d) \<Longrightarrow>
     distinct (map fst (foldl (\<lambda>d g. if P g then dd_push (f g) h d else d) d gs))"
  by (induction gs arbitrary: d) (auto simp: distinct_dd_push)

lemma record_node_keys:
  "record_node use_gres n B = Inr B' \<Longrightarrow>
     distinct (map fst (state2f02hl B)) \<Longrightarrow> distinct (map fst (state2gres2hl B)) \<Longrightarrow>
     distinct (map fst (state2f02hl B')) \<and> distinct (map fst (state2gres2hl B'))"
  by (auto simp: record_node_def Let_def distinct_dd_push distinct_foldl_dd_push
           split: sum.splits if_splits)

lemma populate_keys2:
  "populate use_gres fexp ns B = Inr B' \<Longrightarrow>
     distinct (map fst (state2f02hl B)) \<Longrightarrow> distinct (map fst (state2gres2hl B)) \<Longrightarrow>
     distinct (map fst (state2f02hl B')) \<and> distinct (map fst (state2gres2hl B'))"
proof (induction ns arbitrary: B)
  case Nil
  then show ?case by simp
next
  case (Cons n ns)
  show ?case
  proof (cases "qualifies use_gres fexp n = Inr True")
    case True
    with Cons.prems(1) obtain B1 where r: "record_node use_gres n B = Inr B1"
      and p: "populate use_gres fexp ns B1 = Inr B'"
      by (auto split: sum.splits)
    from record_node_keys[OF r Cons.prems(2,3)] Cons.IH[OF p] show ?thesis by simp
  next
    case False
    with Cons.prems(1) have p: "populate use_gres fexp ns B = Inr B'"
      by (auto split: sum.splits if_splits)
    from Cons.IH[OF p Cons.prems(2,3)] show ?thesis .
  qed
qed

lemma items_of_bucket:
  "distinct (map fst d) \<Longrightarrow> (k, hl) \<in> set (items_of s d) \<Longrightarrow> hl = bucket d (s, k)"
  by (auto simp: items_of_def dest: bucket_entry)

lemma hl_count_uniq: "hl_count (hl_uniq hl) = card (set hl)"
  by (simp add: hl_count_def hl_uniq_def length_remdups_card_conv)

lemma hl_uniq_props: "distinct (hl_uniq hl) \<and> set (hl_uniq hl) = set hl"
  by (simp add: hl_uniq_def)

lemma sum_list_insort_key:
  "sum_list (map f (insort_key k x xs)) = f x + sum_list (map f xs)" for f :: "'a \<Rightarrow> nat"
  by (induction xs) auto

lemma sum_list_sort_key:
  "sum_list (map f (sort_key k xs)) = sum_list (map f xs)" for f :: "'a \<Rightarrow> nat"
  by (induction xs) (auto simp: sum_list_insort_key)

lemma count_list_map_filter:
  "distinct (map f xs) \<Longrightarrow> x \<in> set xs \<Longrightarrow>
     count_list (map f (filter P xs)) (f x) = (if P x then 1 else 0)"
proof (induction xs)
  case Nil
  then show ?case by simp
next
  case (Cons y ys)
  have nf: "f y \<notin> f ` set ys" using Cons.prems by simp
  then have z: "count_list (map f (filter P ys)) (f y) = 0"
    by (auto simp: count_list_0_iff)
  show ?case
  proof (cases "x = y")
    case True
    then show ?thesis using z by simp
  next
    case False
    with Cons.prems have xin: "x \<in> set ys" by simp
    with nf have "f x \<noteq> f y" by (metis imageI)
    then show ?thesis using Cons.IH xin Cons.prems by simp
  qed
qed

lemma state_rows_total:
  "state_rows E A B items R = Inr R' \<Longrightarrow>
     total_nodes R' = total_nodes R + sum_list (map (\<lambda>(s, hl). card (set hl)) items) \<and>
     map (\<lambda>b. num (fst b)) (blocks R') =
       map (\<lambda>b. num (fst b)) (blocks R) @ map (\<lambda>(s, hl). card (set hl)) items"
proof (induction items arbitrary: R)
  case Nil
  then show ?case by simp
next
  case (Cons it items)
  obtain s hl where it: "it = (s, hl)" by (cases it)
  from Cons.prems obtain R1 where
    p: "state_rows E A B items R1 = Inr R'" and
    t: "total_nodes R1 = total_nodes R + card (set hl)" and
    b: "map (\<lambda>b. num (fst b)) (blocks R1) = map (\<lambda>b. num (fst b)) (blocks R) @ [card (set hl)]"
    unfolding it
    by (auto simp: Let_def hl_count_uniq mk_row_def split: sum.splits prod.splits)
  show ?case using Cons.IH[OF p] t b it by simp
qed

lemma tallies_mk_row:
  "summarize_hl E (hl_uniq hl) (args_summarize A) err = Inr a \<Longrightarrow>
     tallies E A hl (mk_row A k (hl_uniq hl) a gi) a"
  unfolding tallies_def using hl_uniq_props[of hl]
  by (auto simp: mk_row_def hl_count_uniq)

lemma feature_rows_ok:
  "feature_rows E A nn gi items err = Inr (rows, err') \<Longrightarrow>
     \<forall>fr\<in>set rows. \<exists>hl a. (label fr, hl) \<in> set items \<and> tallies E A hl fr a \<and> gpu_info fr = gi"
proof (induction items arbitrary: err rows)
  case Nil
  then show ?case by simp
next
  case (Cons it items)
  obtain f fhl where it: "it = (f, fhl)" by (cases it)
  show ?case
  proof (cases "f = ''gpu'' \<or> (\<not> args_verbose A \<and> nn = hl_count (hl_uniq fhl))")
    case True
    with Cons.prems it have "feature_rows E A nn gi items err = Inr (rows, err')"
      by (auto simp: Let_def split: if_splits)
    from Cons.IH[OF this] show ?thesis by (simp add: it) blast
  next
    case False
    with Cons.prems it obtain a rows1 where
      s: "summarize_hl E (hl_uniq fhl) (args_summarize A) err = Inr a" and
      p: "feature_rows E A nn gi items (stderr a) = Inr (rows1, err')" and
      r: "rows = mk_row A f (hl_uniq fhl) a gi # rows1"
      by (auto simp: Let_def split: sum.splits)
    have h: "label (mk_row A f (hl_uniq fhl) a gi) = f" "gpu_info (mk_row A f (hl_uniq fhl) a gi) = gi"
      by (simp_all add: mk_row_def)
    show ?thesis
    proof
      fix fr assume "fr \<in> set rows"
      then consider "fr = mk_row A f (hl_uniq fhl) a gi" | "fr \<in> set rows1" using r by auto
      then show "\<exists>hl a. (label fr, hl) \<in> set (it # items) \<and> tallies E A hl fr a \<and> gpu_info fr = gi"
      proof cases
        case 1
        then show ?thesis using tallies_mk_row[OF s, of f gi] h it by auto
      next
        case 2
        with Cons.IH[OF p] show ?thesis by (simp add: it) blast
      qed
    qed
  qed
qed

lemma gres_rows_ok:
  "gres_rows E A nn items err = Inr (rows, err') \<Longrightarrow>
     \<forall>gr\<in>set rows. \<exists>hl a. (label gr, hl) \<in> set items \<and> tallies E A hl gr a \<and> gpu_info gr = gpu_info_of a"
proof (induction items arbitrary: err rows)
  case Nil
  then show ?case by simp
next
  case (Cons it items)
  obtain g ghl where it: "it = (g, ghl)" by (cases it)
  show ?case
  proof (cases "\<not> args_verbose A \<and> nn = hl_count (hl_uniq ghl)")
    case True
    with Cons.prems it have "gres_rows E A nn items err = Inr (rows, err')"
      by (auto simp: Let_def split: if_splits)
    from Cons.IH[OF this] show ?thesis by (simp add: it) blast
  next
    case False
    with Cons.prems it obtain a rows1 where
      s: "summarize_hl E (hl_uniq ghl) (args_summarize A) err = Inr a" and
      p: "gres_rows E A nn items (stderr a) = Inr (rows1, err')" and
      r: "rows = mk_row A g (hl_uniq ghl) a (gpu_info_of a) # rows1"
      by (auto simp: Let_def split: sum.splits)
    have h: "label (mk_row A g (hl_uniq ghl) a (gpu_info_of a)) = g"
      "gpu_info (mk_row A g (hl_uniq ghl) a (gpu_info_of a)) = gpu_info_of a"
      by (simp_all add: mk_row_def)
    show ?thesis
    proof
      fix gr assume "gr \<in> set rows"
      then consider "gr = mk_row A g (hl_uniq ghl) a (gpu_info_of a)" | "gr \<in> set rows1" using r by auto
      then show "\<exists>hl a. (label gr, hl) \<in> set (it # items) \<and> tallies E A hl gr a \<and> gpu_info gr = gpu_info_of a"
      proof cases
        case 1
        then show ?thesis using tallies_mk_row[OF s, of g "gpu_info_of a"] h it by auto
      next
        case 2
        with Cons.IH[OF p] show ?thesis by (simp add: it) blast
      qed
    qed
  qed
qed

lemma block_ok_mono: "block_ok E A B items b \<Longrightarrow> set items \<subseteq> set items' \<Longrightarrow> block_ok E A B items' b"
  unfolding block_ok_def by (auto split: prod.splits)

lemma state_rows_ok:
  "state_rows E A B items R = Inr R' \<Longrightarrow>
     \<forall>b\<in>set (blocks R'). b \<in> set (blocks R) \<or> block_ok E A B items b"
proof (induction items arbitrary: R)
  case Nil
  then show ?case by simp
next
  case (Cons it items)
  obtain s hl where it: "it = (s, hl)" by (cases it)
  from Cons.prems obtain a frows err1 grows err2 R1 where
    su: "summarize_hl E (hl_uniq hl) (args_summarize A) (errors R) = Inr a" and
    fr: "feature_rows E A (hl_count (hl_uniq hl)) (gpu_info_of a) (items_of s (state2f02hl B)) (stderr a) = Inr (frows, err1)" and
    gr: "gres_rows E A (hl_count (hl_uniq hl)) (items_of s (state2gres2hl B)) err1 = Inr (grows, err2)" and
    p: "state_rows E A B items R1 = Inr R'" and
    b: "blocks R1 = blocks R @ [(mk_row A s (hl_uniq hl) a (gpu_info_of a), frows, grows)]"
    unfolding it by (auto simp: Let_def split: sum.splits prod.splits)
  have h: "label (mk_row A s (hl_uniq hl) a (gpu_info_of a)) = s"
      "gpu_info (mk_row A s (hl_uniq hl) a (gpu_info_of a)) = gpu_info_of a"
    by (simp_all add: mk_row_def)
  have new: "block_ok E A B (it # items) (mk_row A s (hl_uniq hl) a (gpu_info_of a), frows, grows)"
    unfolding block_ok_def it
    using tallies_mk_row[OF su, of s "gpu_info_of a"] feature_rows_ok[OF fr] gres_rows_ok[OF gr] h
    by auto
  show ?case
  proof
    fix b' assume "b' \<in> set (blocks R')"
    with Cons.IH[OF p] have "b' \<in> set (blocks R1) \<or> block_ok E A B items b'" by blast
    then show "b' \<in> set (blocks R) \<or> block_ok E A B (it # items) b'"
      using b new block_ok_mono[of E A B items b' "it # items"] by auto
  qed
qed

lemma sample_names: "distinct (map name (nodes sample_env))"
  by (simp add: sample_env_def workergpu046_def workergpu055_def workergpu040_def worker5010_def worker5073_def)

lemma sample_run: "run sample_args sample_env = Inr sample_report"
  by code_simp

lemma total_nodes_count:
  assumes p: "populate use_gres fexp ns no_buckets = Inr B"
    and s: "state_rows E A B (sort_key fst (state2hl B)) report0 = Inr R"
    and d: "distinct (map name ns)"
  shows "total_nodes R = length (filter (\<lambda>n. qualifies use_gres fexp n = Inr True) ns)"
proof -
  let ?q = "\<lambda>n. qualifies use_gres fexp n = Inr True"
  have bk: "bucket (state2hl B) k = map name (filter (\<lambda>n. ?q n \<and> norm_state (state n) = k) ns)" for k
    using populate_state2hl[OF p, of k] by (simp add: no_buckets_def bucket_Nil)
  have dk: "distinct (map fst (state2hl B))"
    using populate_keys[OF p] by (simp add: no_buckets_def)
  have dist: "distinct hl" if "(k, hl) \<in> set (state2hl B)" for k hl
  proof -
    have "hl = bucket (state2hl B) k" using bucket_entry[OF dk that] by simp
    then show ?thesis using d by (simp add: bk distinct_map_filter)
  qed
  have "sum_list (map (\<lambda>(k, hl). card (set hl)) (state2hl B)) =
        sum_list (map (\<lambda>(k, hl). length hl) (state2hl B))"
    by (rule arg_cong[where f = sum_list], rule map_cong) (auto simp: distinct_card dest: dist)
  also have "\<dots> = length (filter ?q ns)"
    using populate_size[OF p] by (simp add: no_buckets_def)
  finally show ?thesis
    using state_rows_total[OF s] by (simp add: report0_def sum_list_sort_key)
qed

section \<open>Properties: node counts\<close>

text \<open>
  C10.  When the run returns and the node names are distinct (the snapshot is a
  dictionary keyed by name), every node that qualifies is pushed exactly once, into the
  bucket of its own normalized state and into no other; the total node count of the
  report is the sum of the node counts of the state lines, and that sum is the number of
  distinct qualifying nodes.
\<close>

theorem total_nodes_qualifying:
  assumes "run A E = Inr R" and "distinct (map name (nodes E))"
  shows "\<exists>fexp B. compile_features (args_features A) = Inr fexp \<and>
     populate (args_gres A) fexp (nodes E) no_buckets = Inr B \<and>
     (\<forall>n\<in>set (nodes E). qualifies (args_gres A) fexp n = Inr True \<longrightarrow>
        (\<forall>s. count_list (bucket (state2hl B) s) (name n) = (if s = norm_state (state n) then 1 else 0))) \<and>
     total_nodes R = sum_list (map (\<lambda>b. num (fst b)) (blocks R)) \<and>
     sum_list (map (\<lambda>b. num (fst b)) (blocks R)) =
       card (name ` {n \<in> set (nodes E). qualifies (args_gres A) fexp n = Inr True})"
proof -
  from assms(1) obtain fexp B where
    c: "compile_features (args_features A) = Inr fexp" and
    p: "populate (args_gres A) fexp (nodes E) no_buckets = Inr B" and
    s: "state_rows E A B (sort_key fst (state2hl B)) report0 = Inr R"
    by (auto simp: run_def split: sum.splits)
  let ?q = "\<lambda>n. qualifies (args_gres A) fexp n = Inr True"
  have bk: "bucket (state2hl B) s = map name (filter (\<lambda>n. ?q n \<and> norm_state (state n) = s) (nodes E))" for s
    using populate_state2hl[OF p, of s] by (simp add: no_buckets_def bucket_Nil)
  have once: "\<forall>n\<in>set (nodes E). ?q n \<longrightarrow>
        (\<forall>s. count_list (bucket (state2hl B) s) (name n) = (if s = norm_state (state n) then 1 else 0))"
    using count_list_map_filter[OF assms(2)] by (auto simp: bk)
  have dk: "distinct (map fst (state2hl B))"
    using populate_keys[OF p] by (simp add: no_buckets_def)
  have dist: "distinct hl" if "(s, hl) \<in> set (state2hl B)" for s hl
  proof -
    have "hl = bucket (state2hl B) s" using bucket_entry[OF dk that] by simp
    then show ?thesis using assms(2) by (simp add: bk distinct_map_filter)
  qed
  have "sum_list (map (\<lambda>(s, hl). card (set hl)) (state2hl B)) =
        sum_list (map (\<lambda>(s, hl). length hl) (state2hl B))"
    by (rule arg_cong[where f = sum_list], rule map_cong) (auto simp: distinct_card dest: dist)
  also have "\<dots> = length (filter ?q (nodes E))"
    using populate_size[OF p] by (simp add: no_buckets_def)
  also have "\<dots> = card (name ` {n \<in> set (nodes E). ?q n})"
  proof -
    have "distinct (map name (filter ?q (nodes E)))" using assms(2) by (rule distinct_map_filter)
    then have "card (set (map name (filter ?q (nodes E)))) = length (map name (filter ?q (nodes E)))"
      by (rule distinct_card)
    then show ?thesis by simp
  qed
  finally have cnt: "sum_list (map (\<lambda>(s, hl). card (set hl)) (state2hl B)) =
      card (name ` {n \<in> set (nodes E). ?q n})" .
  from state_rows_total[OF s]
  have t: "total_nodes R = sum_list (map (\<lambda>(s, hl). card (set hl)) (state2hl B))"
    and b: "map (\<lambda>b. num (fst b)) (blocks R) = map (\<lambda>(s, hl). card (set hl)) (sort_key fst (state2hl B))"
    by (simp_all add: report0_def sum_list_sort_key)
  have sb: "sum_list (map (\<lambda>b. num (fst b)) (blocks R)) = sum_list (map (\<lambda>(s, hl). card (set hl)) (state2hl B))"
    unfolding b by (rule sum_list_sort_key)
  show ?thesis using c p once t sb cnt by auto
qed

theorem total_nodes_qualifying_witness:
  "run sample_args sample_env = Inr sample_report \<and> distinct (map name (nodes sample_env)) \<and>
   total_nodes sample_report = 5 \<and>
   (\<exists>fexp B. compile_features (args_features sample_args) = Inr fexp \<and>
      populate (args_gres sample_args) fexp (nodes sample_env) no_buckets = Inr B \<and>
      total_nodes sample_report = sum_list (map (\<lambda>b. num (fst b)) (blocks sample_report)) \<and>
      sum_list (map (\<lambda>b. num (fst b)) (blocks sample_report)) =
        card (name ` {n \<in> set (nodes sample_env). qualifies (args_gres sample_args) fexp n = Inr True}))"
proof -
  from total_nodes_qualifying[OF sample_run sample_names]
  have "\<exists>fexp B. compile_features (args_features sample_args) = Inr fexp \<and>
      populate (args_gres sample_args) fexp (nodes sample_env) no_buckets = Inr B \<and>
      total_nodes sample_report = sum_list (map (\<lambda>b. num (fst b)) (blocks sample_report)) \<and>
      sum_list (map (\<lambda>b. num (fst b)) (blocks sample_report)) =
        card (name ` {n \<in> set (nodes sample_env). qualifies (args_gres sample_args) fexp n = Inr True})"
    by blast
  moreover have "total_nodes sample_report = 5" by (simp add: sample_report_def)
  ultimately show ?thesis using sample_run sample_names by blast
qed

text \<open>
  What every line of a returned report does report.  The state line reports the bucket of
  its state, a feature line the bucket of its state and primary feature, a resource line
  the bucket of its state and resource type: the node count of the line is the number of
  distinct names pushed into the bucket, and its CPU figures and job counts are those of
  the summary that \<^verbatim>\<open>summarize_hl\<close> computes over a list that holds each of these names
  once.  The state and resource lines print the GPU figures of that summary.  Pushing a
  name a second time does not change the count.
\<close>

lemma bucket_counts_deduplicated:
  assumes "run A E = Inr R"
  shows "hl_count (hl_uniq (hl_push (hl_push hl h) h)) = hl_count (hl_uniq (hl_push hl h)) \<and>
    (\<exists>fexp B. compile_features (args_features A) = Inr fexp \<and>
       populate (args_gres A) fexp (nodes E) no_buckets = Inr B \<and>
       (\<forall>b\<in>set (blocks R).
          (\<exists>a. tallies E A (bucket (state2hl B) (label (fst b))) (fst b) a \<and>
                gpu_info (fst b) = gpu_info_of a) \<and>
          (\<forall>fr\<in>set (fst (snd b)).
             \<exists>a. tallies E A (bucket (state2f02hl B) (label (fst b), label fr)) fr a) \<and>
          (\<forall>gr\<in>set (snd (snd b)).
             \<exists>a. tallies E A (bucket (state2gres2hl B) (label (fst b), label gr)) gr a \<and>
                  gpu_info gr = gpu_info_of a)))"
proof -
  from assms obtain fexp B where
    c: "compile_features (args_features A) = Inr fexp" and
    p: "populate (args_gres A) fexp (nodes E) no_buckets = Inr B" and
    s: "state_rows E A B (sort_key fst (state2hl B)) report0 = Inr R"
    by (auto simp: run_def split: sum.splits)
  have dk: "distinct (map fst (state2hl B))"
    using populate_keys[OF p] by (simp add: no_buckets_def)
  have dk2: "distinct (map fst (state2f02hl B))" "distinct (map fst (state2gres2hl B))"
    using populate_keys2[OF p] by (simp_all add: no_buckets_def)
  have ok: "block_ok E A B (sort_key fst (state2hl B)) b" if "b \<in> set (blocks R)" for b
    using state_rows_ok[OF s] that by (auto simp: report0_def)
  have "(\<exists>a. tallies E A (bucket (state2hl B) (label (fst b))) (fst b) a \<and>
                gpu_info (fst b) = gpu_info_of a) \<and>
          (\<forall>fr\<in>set (fst (snd b)).
             \<exists>a. tallies E A (bucket (state2f02hl B) (label (fst b), label fr)) fr a) \<and>
          (\<forall>gr\<in>set (snd (snd b)).
             \<exists>a. tallies E A (bucket (state2gres2hl B) (label (fst b), label gr)) gr a \<and>
                  gpu_info gr = gpu_info_of a)" if "b \<in> set (blocks R)" for b
  proof -
    obtain r frs grs where b: "b = (r, frs, grs)" by (cases b)
    note o = ok[OF that, unfolded block_ok_def b, simplified]
    from o obtain hl a where "(label r, hl) \<in> set (state2hl B)" "tallies E A hl r a" "gpu_info r = gpu_info_of a"
      by auto
    then have 1: "\<exists>a. tallies E A (bucket (state2hl B) (label r)) r a \<and> gpu_info r = gpu_info_of a"
      using bucket_entry[OF dk] by auto
    have 2: "\<exists>a. tallies E A (bucket (state2f02hl B) (label r, label fr)) fr a" if "fr \<in> set frs" for fr
    proof -
      from o that obtain hl a where "(label fr, hl) \<in> set (items_of (label r) (state2f02hl B))" "tallies E A hl fr a"
        by blast
      then show ?thesis using items_of_bucket[OF dk2(1)] by auto
    qed
    have 3: "\<exists>a. tallies E A (bucket (state2gres2hl B) (label r, label gr)) gr a \<and> gpu_info gr = gpu_info_of a"
      if "gr \<in> set grs" for gr
    proof -
      from o that obtain hl a where "(label gr, hl) \<in> set (items_of (label r) (state2gres2hl B))"
        "tallies E A hl gr a" "gpu_info gr = gpu_info_of a"
        by blast
      then show ?thesis using items_of_bucket[OF dk2(2)] by auto
    qed
    show ?thesis using 1 2 3 by (simp add: b)
  qed
  moreover have "hl_count (hl_uniq (hl_push (hl_push hl h) h)) = hl_count (hl_uniq (hl_push hl h))"
    by (simp add: hl_count_uniq hl_push_def)
  ultimately show ?thesis using c p by blast
qed

text \<open>
  C1 does not hold of the code.  The GPU figures of a feature bucket are computed over its
  deduplicated members at line 190 and then dropped: line 191 prints \<^verbatim>\<open>gpu_info\<close>, which
  still holds the figures of the state line, where lines 198-200 rebuild it for a
  resource line.  In the sample snapshot the feature bucket \<^verbatim>\<open>rome\<close> of the state
  \<^verbatim>\<open>MIXED\<close> holds the two nodes without GPUs, its summary counts no GPU, and its line
  shows the four GPUs of the state.
\<close>

theorem feature_line_gpu_figures:
  "run sample_args sample_env = Inr sample_report \<and>
   map_sum id (\<lambda>B. bucket (state2f02hl B) (''MIXED'', ''rome''))
     (populate False (Constant True) (nodes sample_env) no_buckets) =
     Inr [''worker5010'', ''worker5073''] \<and>
   map_sum id (\<lambda>a. (tot_gpus a, tot_gpus_allocated a, gpu_info_of a))
     (summarize_hl sample_env (hl_uniq [''worker5010'', ''worker5073'']) None []) = Inr (0, 0, None) \<and>
   map (\<lambda>b. (label (fst b), gpu_info (fst b), map (\<lambda>fr. (label fr, num fr, gpu_info fr)) (fst (snd b))))
     (blocks sample_report) =
     [(''DOWN+DRAIN'', Some (4, 0), []), (''IDLE'', Some (2, 0), []),
      (''MIXED'', Some (4, 4), [(''rome'', 2, Some (4, 4))])]"
  by code_simp

section \<open>Properties: the empty expression and the primary feature\<close>

lemma compile_True: "compile_features [] = Inr (Constant True)"
  by (simp add: compile_features_def features_text_def sanitize_def py_compile_def ident_char_def
        flush_def word_token_def)

lemma qualifies_True:
  "qualifies use_gres (Constant True) n =
     (case getInfo use_gres n of Inl e \<Rightarrow> Inl e | Inr toks \<Rightarrow> Inr True)"
  by (simp add: qualifies_def split: sum.splits)

text \<open>
  C3.  With no expression words the compiled expression is the constant \<^verbatim>\<open>True\<close>.  It
  evaluates to true for every node whose tokens can be extracted (extraction comes first
  and may raise), so when the bucketing loop returns, every node of the snapshot has
  qualified and is in the bucket of its state; and when the run returns for a snapshot
  with distinct node names, the total node count is the number of nodes of the snapshot.
\<close>

theorem empty_expression_selects_all:
  "compile_features [] = Inr (Constant True) \<and>
   qualifies use_gres (Constant True) n =
     (case getInfo use_gres n of Inl e \<Rightarrow> Inl e | Inr toks \<Rightarrow> Inr True) \<and>
   (\<forall>B'. populate use_gres (Constant True) ns B = Inr B' \<longrightarrow>
      (\<forall>m\<in>set ns. qualifies use_gres (Constant True) m = Inr True \<and>
          name m \<in> set (bucket (state2hl B') (norm_state (state m))))) \<and>
   (\<forall>R. args_features A = [] \<and> distinct (map name (nodes E)) \<and> run A E = Inr R \<longrightarrow>
      total_nodes R = length (nodes E))"
proof -
  have 1: "qualifies use_gres (Constant True) m = Inr True \<and>
          name m \<in> set (bucket (state2hl B') (norm_state (state m)))"
    if p: "populate use_gres (Constant True) ns B = Inr B'" and m: "m \<in> set ns" for B' m
  proof -
    from populate_returns[OF p] m obtain q where "qualifies use_gres (Constant True) m = Inr q" by blast
    then have q: "qualifies use_gres (Constant True) m = Inr True"
      by (auto simp: qualifies_True split: sum.splits)
    show ?thesis using q m by (auto simp: populate_state2hl[OF p])
  qed
  have 2: "total_nodes R = length (nodes E)"
    if f: "args_features A = []" and d: "distinct (map name (nodes E))" and r: "run A E = Inr R" for R
  proof -
    from r f obtain B where
      p: "populate (args_gres A) (Constant True) (nodes E) no_buckets = Inr B" and
      s: "state_rows E A B (sort_key fst (state2hl B)) report0 = Inr R"
      by (auto simp: run_def compile_True split: sum.splits)
    have "\<forall>m\<in>set (nodes E). qualifies (args_gres A) (Constant True) m = Inr True"
    proof
      fix m assume m: "m \<in> set (nodes E)"
      from populate_returns[OF p] m obtain q where "qualifies (args_gres A) (Constant True) m = Inr q"
        by blast
      then show "qualifies (args_gres A) (Constant True) m = Inr True"
        by (auto simp: qualifies_True split: sum.splits)
    qed
    then have "filter (\<lambda>n. qualifies (args_gres A) (Constant True) n = Inr True) (nodes E) = nodes E"
      by (simp add: filter_id_conv)
    with total_nodes_count[OF p s d] show ?thesis by simp
  qed
  show ?thesis using compile_True qualifies_True 1 2 by blast
qed

theorem empty_expression_selects_all_witness:
  "compile_features [] = Inr (Constant True) \<and>
   qualifies False (Constant True) worker5073 = Inr True \<and>
   (\<exists>B'. populate False (Constant True) (nodes sample_env) no_buckets = Inr B' \<and>
      name worker5073 \<in> set (bucket (state2hl B') (norm_state (state worker5073)))) \<and>
   args_features sample_args = [] \<and> run sample_args sample_env = Inr sample_report \<and>
   total_nodes sample_report = length (nodes sample_env)"
proof -
  have "\<not> isl (populate False (Constant True) (nodes sample_env) no_buckets)"
    by code_simp
  then obtain B' where p: "populate False (Constant True) (nodes sample_env) no_buckets = Inr B'"
    by (cases "populate False (Constant True) (nodes sample_env) no_buckets") auto
  have m: "worker5073 \<in> set (nodes sample_env)" by (simp add: sample_env_def)
  have f: "args_features sample_args = []" by (simp add: sample_args_def)
  note t = empty_expression_selects_all[of False worker5073 "nodes sample_env" no_buckets
      sample_args sample_env]
  have "total_nodes sample_report = length (nodes sample_env)"
    using t f sample_names sample_run by blast
  moreover have "compile_features [] = Inr (Constant True) \<and>
   qualifies False (Constant True) worker5073 = Inr True \<and>
   (\<exists>B'. populate False (Constant True) (nodes sample_env) no_buckets = Inr B' \<and>
      name worker5073 \<in> set (bucket (state2hl B') (norm_state (state worker5073))))"
    using t p m by blast
  ultimately show ?thesis using f sample_run by blast
qed

lemma primary_feature_returns:
  "primary_feature n = Inr k \<longleftrightarrow>
     (\<exists>s. features n = Some (FStr s) \<and>
        (hd (py_split CHR '','' s) = ''location=local'' \<longrightarrow> 1 < length (py_split CHR '','' s)) \<and>
        k = (if hd (py_split CHR '','' s) = ''location=local'' then py_split CHR '','' s ! 1
             else hd (py_split CHR '','' s)))"
proof (cases "features n")
  case None
  then show ?thesis by (simp add: primary_feature_def)
next
  case (Some f)
  show ?thesis
  proof (cases f)
    case FNone
    with Some show ?thesis by (simp add: primary_feature_def)
  next
    case (FStr s)
    have ne: "py_split CHR '','' s \<noteq> []" by (rule py_split_ne)
    then have h: "py_split CHR '','' s ! 0 = hd (py_split CHR '','' s)" by (simp add: hd_conv_nth)
    show ?thesis using Some FStr ne h
      by (auto simp: primary_feature_def py_index_def Let_def)
  next
    case (FList l)
    with Some show ?thesis by (simp add: primary_feature_def)
  qed
qed

text \<open>
  C5.  The loop body returns for a node exactly when its feature entry is a string whose
  first comma-separated token is not the sentinel \<^verbatim>\<open>location=local\<close> or is followed by a
  second token (and, in feature mode, the GRES extractor returns).  It then pushes the
  node into the bucket keyed by the normalized state and the first token, or the second
  token when the first is the sentinel.
\<close>

theorem primary_feature_key:
  "((\<exists>B'. record_node use_gres n B = Inr B') \<longleftrightarrow>
      (\<exists>s. features n = Some (FStr s) \<and>
         (hd (py_split CHR '','' s) = ''location=local'' \<longrightarrow> 1 < length (py_split CHR '','' s))) \<and>
      (\<not> use_gres \<longrightarrow> \<not> colonless n)) \<and>
   (\<forall>B'. record_node use_gres n B = Inr B' \<longrightarrow>
      (\<exists>s. features n = Some (FStr s) \<and>
         state2f02hl B' =
           dd_push (norm_state (state n),
                    if hd (py_split CHR '','' s) = ''location=local'' then py_split CHR '','' s ! 1
                    else hd (py_split CHR '','' s))
             (name n) (state2f02hl B)))"
proof -
  have a: "(\<exists>B'. record_node use_gres n B = Inr B') \<longleftrightarrow>
      (\<exists>k. primary_feature n = Inr k) \<and> (\<not> use_gres \<longrightarrow> (\<exists>toks. getInfoGres n = Inr toks))"
    by (cases "primary_feature n"; cases "getInfoGres n"; cases use_gres)
       (simp_all add: record_node_def Let_def)
  have b: "record_node use_gres n B = Inr B' \<Longrightarrow>
      \<exists>k. primary_feature n = Inr k \<and>
        state2f02hl B' = dd_push (norm_state (state n), k) (name n) (state2f02hl B)" for B'
    by (auto simp: record_node_def Let_def split: sum.splits if_splits)
  show ?thesis
    using a b unfolding getInfoGres_returns primary_feature_returns by (auto; blast)
qed

theorem primary_feature_key_witness:
  "(\<exists>B'. record_node False bright_node no_buckets = Inr B' \<and>
      state2f02hl B' = [((''MIXED'', ''rome''), [''worker5010''])]) \<and>
   (\<exists>B'. record_node False workergpu046 no_buckets = Inr B' \<and>
      state2f02hl B' = [((''IDLE'', ''gpu''), [''workergpu046''])])"
proof -
  have c: "\<not> colonless bright_node" "\<not> colonless workergpu046"
    by (simp_all add: colonless_def bright_node_def worker5010_def workergpu046_def)
  have s: "py_split CHR '','' ''location=local,rome,ib'' = [''location=local'', ''rome'', ''ib'']"
    "py_split CHR '','' ''gpu,skylake,v100'' = [''gpu'', ''skylake'', ''v100'']"
    by simp_all
  have f: "features bright_node = Some (FStr ''location=local,rome,ib'')"
    "features workergpu046 = Some (FStr ''gpu,skylake,v100'')"
    by (simp_all add: bright_node_def worker5010_def workergpu046_def)
  have n: "norm_state (state bright_node) = ''MIXED''" "name bright_node = ''worker5010''"
    "norm_state (state workergpu046) = ''IDLE''" "name workergpu046 = ''workergpu046''"
    by (simp_all add: bright_node_def worker5010_def workergpu046_def norm_state_def)
  from primary_feature_key[of False bright_node no_buckets] c(1) f(1) s(1)
  have 1: "\<exists>B'. record_node False bright_node no_buckets = Inr B' \<and>
      state2f02hl B' = [((''MIXED'', ''rome''), [''worker5010''])]"
    by (auto simp: n no_buckets_def hl_push_def)
  from primary_feature_key[of False workergpu046 no_buckets] c(2) f(2) s(2)
  have 2: "\<exists>B'. record_node False workergpu046 no_buckets = Inr B' \<and>
      state2f02hl B' = [((''IDLE'', ''gpu''), [''workergpu046''])]"
    by (auto simp: n no_buckets_def hl_push_def)
  show ?thesis using 1 2 by blast
qed

section \<open>Properties: summing a bucket\<close>

lemma count_jobs_keeps:
  "tot_cpus (count_jobs E cb h a) = tot_cpus a \<and>
   tot_cpus_allocated (count_jobs E cb h a) = tot_cpus_allocated a \<and>
   tot_gpus (count_jobs E cb h a) = tot_gpus a \<and>
   tot_gpus_allocated (count_jobs E cb h a) = tot_gpus_allocated a \<and>
   var_gres (count_jobs E cb h a) = var_gres a \<and>
   var_gres_used (count_jobs E cb h a) = var_gres_used a"
proof -
  have p: "tot_cpus (foldl (\<lambda>a j. a\<lparr>cb2jc := f j a\<rparr>) a js) = tot_cpus a \<and>
   tot_cpus_allocated (foldl (\<lambda>a j. a\<lparr>cb2jc := f j a\<rparr>) a js) = tot_cpus_allocated a \<and>
   tot_gpus (foldl (\<lambda>a j. a\<lparr>cb2jc := f j a\<rparr>) a js) = tot_gpus a \<and>
   tot_gpus_allocated (foldl (\<lambda>a j. a\<lparr>cb2jc := f j a\<rparr>) a js) = tot_gpus_allocated a \<and>
   var_gres (foldl (\<lambda>a j. a\<lparr>cb2jc := f j a\<rparr>) a js) = var_gres a \<and>
   var_gres_used (foldl (\<lambda>a j. a\<lparr>cb2jc := f j a\<rparr>) a js) = var_gres_used a"
    for f :: "job \<Rightarrow> acc \<Rightarrow> (string \<times> nat) list" and js a
    by (induction js arbitrary: a) auto
  have u: "tot_cpus (foldl (\<lambda>a j. case g j of (user, d) \<Rightarrow> a\<lparr>cb2jc := incr user (cb2jc a), stderr := stderr a @ d\<rparr>) a js) = tot_cpus a \<and>
   tot_cpus_allocated (foldl (\<lambda>a j. case g j of (user, d) \<Rightarrow> a\<lparr>cb2jc := incr user (cb2jc a), stderr := stderr a @ d\<rparr>) a js) = tot_cpus_allocated a \<and>
   tot_gpus (foldl (\<lambda>a j. case g j of (user, d) \<Rightarrow> a\<lparr>cb2jc := incr user (cb2jc a), stderr := stderr a @ d\<rparr>) a js) = tot_gpus a \<and>
   tot_gpus_allocated (foldl (\<lambda>a j. case g j of (user, d) \<Rightarrow> a\<lparr>cb2jc := incr user (cb2jc a), stderr := stderr a @ d\<rparr>) a js) = tot_gpus_allocated a \<and>
   var_gres (foldl (\<lambda>a j. case g j of (user, d) \<Rightarrow> a\<lparr>cb2jc := incr user (cb2jc a), stderr := stderr a @ d\<rparr>) a js) = var_gres a \<and>
   var_gres_used (foldl (\<lambda>a j. case g j of (user, d) \<Rightarrow> a\<lparr>cb2jc := incr user (cb2jc a), stderr := stderr a @ d\<rparr>) a js) = var_gres_used a"
    for g :: "job \<Rightarrow> string \<times> diag list" and js a
    by (induction js arbitrary: a) (auto split: prod.splits)
  show ?thesis
  proof (cases cb)
    case None
    then show ?thesis by (simp add: count_jobs_def)
  next
    case (Some c)
    then show ?thesis using p[of "\<lambda>j a. incr (get_partition j) (cb2jc a)" a "h2jj E h"] u[of "get_user E" a "h2jj E h"]
      by (cases c) (simp_all add: count_jobs_def)
  qed
qed

lemma loop_var_find: "find (prefix ''gpu'') xs = Some g \<Longrightarrow> loop_var v xs = Some g"
  by (induction xs arbitrary: v) (auto split: if_splits)

lemma takeWhile_upto: "c \<notin> set xs \<Longrightarrow> takeWhile (\<lambda>x. x \<noteq> c) (xs @ c # ys) = xs"
  by (induction xs) auto

lemma dropWhile_upto: "c \<notin> set xs \<Longrightarrow> dropWhile (\<lambda>x. x \<noteq> c) (xs @ c # ys) = c # ys"
  by (induction xs) auto

lemma takeWhile_run: "\<forall>x\<in>set xs. P x \<Longrightarrow> ys = [] \<or> \<not> P (hd ys) \<Longrightarrow> takeWhile P (xs @ ys) = xs"
  by (induction xs) (auto simp: takeWhile_eq_Nil_iff)

lemma gpuCountRe_shape:
  assumes "ty \<noteq> []" "CHR '':'' \<notin> set ty" "ds \<noteq> []" "\<forall>c\<in>set ds. digit c" "r = [] \<or> \<not> digit (hd r)"
  shows "gpu_count (''gpu:'' @ ty @ '':'' @ ds @ r) = Some (py_int ds)"
proof -
  have t: "takeWhile (\<lambda>c. c \<noteq> CHR '':'') (ty @ '':'' @ ds @ r) = ty"
    using assms(2) by (simp add: takeWhile_upto)
  have d: "dropWhile (\<lambda>c. c \<noteq> CHR '':'') (ty @ '':'' @ ds @ r) = '':'' @ ds @ r"
    using assms(2) by (simp add: dropWhile_upto)
  have k: "takeWhile digit (ds @ r) = ds"
    using assms(4,5) by (rule takeWhile_run)
  have "gpuCountRe_match (''gpu:'' @ ty @ '':'' @ ds @ r) = Some ds"
    using t d k assms(1,3) by (simp add: gpuCountRe_match_def Let_def)
  then show ?thesis by (simp add: gpu_count_def)
qed

lemma py_int_digit: "py_int ''0'' = 0" "py_int ''2'' = 2" "py_int ''4'' = 4"
  by (simp_all add: py_int_def digit_val_def)

text \<open>
  The step for a bucket member whose features signal a GPU, whose GRES list has a
  descriptor that starts with \<^verbatim>\<open>gpu\<close> and whose list of GRES in use has one too, when the
  pattern finds a count in the first such descriptor of either list: it adds the first
  count to the GPU total and the second to the GPUs allocated.  The count of a descriptor
  \<^verbatim>\<open>gpu:<type>:<digits>\<close> followed by anything but a digit is the number its digits
  spell.
\<close>

lemma gpu_figures_first_descriptor:
  assumes "nodes_get E h = Inr nd" and "gpu_signal (features nd) = Inr True"
    and "find (prefix ''gpu'') (gres nd) = Some g" and "gpu_count g = Some k"
    and "find (prefix ''gpu'') (gres_used nd) = Some u" and "gpu_count u = Some k'"
  shows "(\<exists>a'. tally_host E cb a h = Inr a' \<and>
           tot_gpus a' = tot_gpus a + int k \<and>
           tot_gpus_allocated a' = tot_gpus_allocated a + int k') \<and>
         (ty \<noteq> [] \<and> CHR '':'' \<notin> set ty \<and> ds \<noteq> [] \<and> (\<forall>c\<in>set ds. digit c) \<and>
            (r = [] \<or> \<not> digit (hd r)) \<longrightarrow>
          gpu_count (''gpu:'' @ ty @ '':'' @ ds @ r) = Some (py_int ds))"
  using assms count_jobs_keeps[of E cb h a] loop_var_find[OF assms(3)] loop_var_find[OF assms(5)]
    gpuCountRe_shape[of ty ds r]
  by (simp add: tally_host_def Let_def)

text \<open>
  C7 does not hold of the code.  The comment at lines 147-149 says that the first
  descriptor that starts with \<^verbatim>\<open>gpu\<close> is taken, but the loops of lines 150-153 have no
  branch for a list without one: the loop variable then keeps the last descriptor of the
  list, or, for an empty list, the descriptor of the previous host.  A GPU node with
  empty GRES lists ends the run when it is the first host of its bucket, and after
  another GPU node it is counted with that node's GPUs: four GPUs are reported for two.
\<close>

theorem first_gpu_descriptor_missing:
  "getInfoFeatures bare_gpu_node = Inr [''gpu'', ''skylake'', ''v100''] \<and>
   gpu_signal (features bare_gpu_node) = Inr True \<and>
   find (prefix ''gpu'') (gres bare_gpu_node) = None \<and>
   run sample_args (one_node bare_gpu_node) = Inl UnboundLocalError \<and>
   map_sum id (\<lambda>a. (tot_gpus a, tot_gpus_allocated a))
     (summarize_hl two_gpu_nodes [''workergpu046'', ''workergpu047''] None []) = Inr (4, 0) \<and>
   map_sum id (\<lambda>R. (total_nodes R, total_gpus R)) (run sample_args two_gpu_nodes) = Inr (2, 4)"
  by code_simp

text \<open>
  C8, as amended.  If the node signals a GPU, the descriptor selected from its GRES list
  yields a count, and the descriptor selected from its list of GRES in use does not
  match the pattern, then the step for the node returns: it writes a diagnostic that
  names the host, leaves the GPUs allocated as they were, has added the node's CPU
  figures, and the loop goes on with the remaining hosts.
\<close>

theorem unparsable_allocation_skipped:
  assumes "nodes_get E h = Inr nd" and "gpu_signal (features nd) = Inr True"
    and "loop_var (var_gres a) (gres nd) = Some g" and "gpu_count g = Some k"
    and "loop_var (var_gres_used a) (gres_used nd) = Some u" and "gpu_count u = None"
  shows "\<exists>a'. tally_host E cb a h = Inr a' \<and>
           stderr a' = stderr (count_jobs E cb h a) @ [Skipping h u (gres nd) (gres_used nd)] \<and>
           tot_gpus_allocated a' = tot_gpus_allocated a \<and>
           tot_cpus a' = tot_cpus a + cpus nd \<and>
           tot_cpus_allocated a' = tot_cpus_allocated a + alloc_cpus nd \<and>
           tally_hosts E cb a (h # hs) = tally_hosts E cb a' hs"
  using assms count_jobs_keeps[of E cb h a]
  by (simp add: tally_host_def Let_def)

theorem unparsable_allocation_skipped_witness:
  "gpu_count ''gpu:0'' = None \<and>
   (\<exists>a'. tally_host (one_node odd_used_node) None (acc0 []) ''workergpu046'' = Inr a' \<and>
      stderr a' = [Skipping ''workergpu046'' ''gpu:0'' [''gpu:v100-16gb:2(S:0-1)''] [''gpu:0'']] \<and>
      tot_gpus_allocated a' = 0 \<and> tot_cpus a' = 40 \<and> tot_cpus_allocated a' = 0)"
proof -
  have n: "nodes_get (one_node odd_used_node) ''workergpu046'' = Inr odd_used_node"
    by (simp add: nodes_get_def one_node_def odd_used_node_def workergpu046_def)
  have s: "gpu_signal (features odd_used_node) = Inr True"
    by (simp add: gpu_signal_def odd_used_node_def workergpu046_def)
  have g: "loop_var (var_gres (acc0 [])) (gres odd_used_node) = Some ''gpu:v100-16gb:2(S:0-1)''"
    "loop_var (var_gres_used (acc0 [])) (gres_used odd_used_node) = Some ''gpu:0''"
    by (simp_all add: odd_used_node_def workergpu046_def acc0_def)
  have c: "gpu_count ''gpu:v100-16gb:2(S:0-1)'' = Some 2" "gpu_count ''gpu:0'' = None"
    by (simp_all add: gpu_count_def gpuCountRe_match_def digit_def py_int_digit)
  from unparsable_allocation_skipped[OF n s g(1) c(1) g(2) c(2), of None "[]"]
  obtain a' where t: "tally_host (one_node odd_used_node) None (acc0 []) ''workergpu046'' = Inr a'"
    and e: "stderr a' = stderr (count_jobs (one_node odd_used_node) None ''workergpu046'' (acc0 [])) @
              [Skipping ''workergpu046'' ''gpu:0'' (gres odd_used_node) (gres_used odd_used_node)]"
    and a: "tot_gpus_allocated a' = tot_gpus_allocated (acc0 [])"
    and p: "tot_cpus a' = tot_cpus (acc0 []) + cpus odd_used_node"
    and q: "tot_cpus_allocated a' = tot_cpus_allocated (acc0 []) + alloc_cpus odd_used_node"
    by blast
  have "stderr a' = [Skipping ''workergpu046'' ''gpu:0'' [''gpu:v100-16gb:2(S:0-1)''] [''gpu:0'']]"
    "tot_gpus_allocated a' = 0" "tot_cpus a' = 40" "tot_cpus_allocated a' = 0"
    using e a p q by (simp_all add: acc0_def count_jobs_def odd_used_node_def workergpu046_def)
  with t c(2) show ?thesis by blast
qed

text \<open>
  C8 as stated fails: the descriptor in use does not match the pattern, and the run
  ends with the exception of line 154, where the descriptor of the GPU total does not
  match either.
\<close>

theorem unparsable_total_aborts:
  "gpu_count ''gpu:0'' = None \<and> gpu_signal (features untyped_gpu_node) = Inr True \<and>
   loop_var None (gres_used untyped_gpu_node) = Some ''gpu:0'' \<and>
   run sample_args (one_node untyped_gpu_node) = Inl AttributeError"
  by code_simp

text \<open>
  C6 does not hold of the code.  The test of line 146 looks for the letters in the
  feature string, not for the tokens: a node whose feature \<^verbatim>\<open>highmem\<close> contains \<^verbatim>\<open>gh\<close>
  takes the GPU branch.  Alone in its bucket it ends the run, since the loop over its
  empty GRES list binds nothing; after a GPU node it adds that node's GPUs a second
  time.
\<close>

theorem gpu_signal_is_substring:
  "getInfoFeatures highmem_node = Inr [''skylake'', ''highmem''] \<and>
   gpu_signal (features highmem_node) = Inr True \<and>
   run sample_args (one_node highmem_node) = Inl UnboundLocalError \<and>
   map_sum id total_gpus
     (run sample_args
        \<lparr>nodes = [workergpu046\<lparr>features := Some (FStr ''skylake,gpu,v100'')\<rparr>, highmem_node],
         h2jj = (\<lambda>h. []), uid2user = Map.empty\<rparr>) = Inr 4"
  by code_simp

section \<open>Properties: the expression and its free variables\<close>

lemma replace_step:
  "old \<noteq> [] \<Longrightarrow> \<not> prefix old (c # s) \<Longrightarrow> replace old new (c # s) = c # replace old new s"
  by (cases old) (simp_all only: replace.simps if_False)

lemma replace_hit: "old \<noteq> [] \<Longrightarrow> replace old new (old @ y) = new @ replace old new y"
proof (cases old)
  case Nil
  then show "old \<noteq> [] \<Longrightarrow> ?thesis" by simp
next
  case (Cons v va)
  have "replace (v # va) new (v # (va @ y)) = new @ replace (v # va) new (drop (length (v # va)) (v # (va @ y)))"
    by (simp only: replace.simps) simp
  then show ?thesis using Cons by simp
qed

lemma replace_skip_word:
  "hd old \<notin> set v \<Longrightarrow> old \<noteq> [] \<Longrightarrow> replace old new (v @ s) = v @ replace old new s"
proof (induction v)
  case Nil
  then show ?case by simp
next
  case (Cons a v)
  then have "\<not> prefix old (a # v @ s)" by (cases old) auto
  then show ?case using Cons by (simp add: replace_step)
qed

lemma prefix_word_enc:
  "pieces pc \<Longrightarrow> CHR ''_'' \<notin> set v \<Longrightarrow> prefix v (concat (map pc cs)) \<Longrightarrow> prefix v cs"
proof (induction v arbitrary: cs)
  case Nil
  then show ?case by simp
next
  case (Cons a v)
  from Cons.prems(3) obtain c cs' where cs: "cs = c # cs'" by (cases cs) auto
  from Cons.prems(1) consider "pc c = [c]" | w where "pc c = block w" unfolding pieces_def by blast
  then show ?case
  proof cases
    case 1
    with Cons.prems cs have "a = c" "prefix v (concat (map pc cs'))" by auto
    with Cons.IH[OF Cons.prems(1)] Cons.prems(2) cs show ?thesis by simp
  next
    case 2
    with Cons.prems cs show ?thesis by (auto simp: block_def)
  qed
qed

lemma under_word_enc:
  assumes "pieces pc" "CHR ''_'' \<notin> set w" "w \<noteq> []"
  shows "prefix w (concat (map pc cs)) \<or> prefix (CHR ''_'' # w) (concat (map pc cs))
           \<or> prefix (CHR ''_'' # CHR ''_'' # w) (concat (map pc cs)) \<Longrightarrow> sublist w cs"
proof -
  obtain b w2 where w: "w = b # w2" "b \<noteq> CHR ''_''" using assms(2,3) by (cases w) auto
  have p0: "prefix w (concat (map pc cs)) \<Longrightarrow> sublist w cs" for cs
    using prefix_word_enc[OF assms(1,2)] by blast
  have p1: "prefix (CHR ''_'' # w) (concat (map pc cs)) \<Longrightarrow> sublist w cs" for cs
  proof (cases cs)
    case Nil
    then show "prefix (CHR ''_'' # w) (concat (map pc cs)) \<Longrightarrow> ?thesis" by simp
  next
    case (Cons c cs')
    assume a: "prefix (CHR ''_'' # w) (concat (map pc cs))"
    from assms(1) consider "pc c = [c]" | w' where "pc c = block w'" unfolding pieces_def by blast
    then show ?thesis
    proof cases
      case 1
      with a Cons have "prefix w (concat (map pc cs'))" by auto
      from p0[OF this] Cons show ?thesis by (simp add: sublist_Cons_right)
    next
      case 2
      with a Cons w show ?thesis by (simp add: block_def)
    qed
  qed
  have p2: "prefix (CHR ''_'' # CHR ''_'' # w) (concat (map pc cs)) \<Longrightarrow> sublist w cs" for cs
  proof (cases cs)
    case Nil
    then show "prefix (CHR ''_'' # CHR ''_'' # w) (concat (map pc cs)) \<Longrightarrow> ?thesis" by simp
  next
    case (Cons c cs')
    assume a: "prefix (CHR ''_'' # CHR ''_'' # w) (concat (map pc cs))"
    from assms(1) consider "pc c = [c]" | w' where "pc c = block w'" unfolding pieces_def by blast
    then show ?thesis
    proof cases
      case 1
      with a Cons have "prefix (CHR ''_'' # w) (concat (map pc cs'))" by auto
      from p1[OF this] Cons show ?thesis by (simp add: sublist_Cons_right)
    next
      case 2
      with a Cons w show ?thesis by (simp add: block_def)
    qed
  qed
  show "prefix w (concat (map pc cs)) \<or> prefix (CHR ''_'' # w) (concat (map pc cs))
           \<or> prefix (CHR ''_'' # CHR ''_'' # w) (concat (map pc cs)) \<Longrightarrow> sublist w cs"
    using p0 p1 p2 by blast
qed

lemma unescape_pass:
  assumes w: "w \<noteq> []" "CHR ''_'' \<notin> set w"
    and x: "pc x = block w"
    and others: "\<forall>c. c \<noteq> x \<longrightarrow> pc c = [c] \<or>
                   (\<exists>w'. pc c = block w' \<and> w' \<noteq> [] \<and> CHR ''_'' \<notin> set w' \<and> hd w' \<noteq> hd w)"
  shows "\<not> sublist w t \<Longrightarrow> replace (block w) [x] (concat (map pc t)) = concat (map (pc(x := [x])) t)"
proof (induction t)
  case Nil
  then show ?case by (simp add: block_def)
next
  case (Cons c cs)
  have pcs: "pieces pc" unfolding pieces_def using x others by metis
  have bne: "block w \<noteq> []" by (simp add: block_def)
  from Cons.prems have ncs: "\<not> sublist w cs" by (simp add: sublist_Cons_right)
  note IH = Cons.IH[OF ncs]
  let ?y = "concat (map pc cs)"
  obtain b w2 where wb: "w = b # w2" "b \<noteq> CHR ''_''" using w by (cases w) auto
  have u: "\<not> prefix w ?y" "\<not> prefix (CHR ''_'' # w) ?y" "\<not> prefix (CHR ''_'' # CHR ''_'' # w) ?y"
    using under_word_enc[OF pcs w(2,1), of cs] ncs by blast+
  have u': "\<not> prefix (w @ ''___'') ?y" "\<not> prefix (CHR ''_'' # w @ ''___'') ?y"
    "\<not> prefix (CHR ''_'' # CHR ''_'' # w @ ''___'') ?y"
    using u by (metis append_Cons append_prefixD)+
  show ?case
  proof (cases "c = x")
    case True
    then show ?thesis using IH x replace_hit[OF bne, of "[x]" ?y] by simp
  next
    case False
    with others consider "pc c = [c]" |
      w' where "pc c = block w'" "w' \<noteq> []" "CHR ''_'' \<notin> set w'" "hd w' \<noteq> hd w"
      by blast
    then show ?thesis
    proof cases
      case 1
      have "\<not> prefix (block w) (c # ?y)" using u' by (auto simp: block_def)
      then show ?thesis using 1 False IH by (simp add: replace_step[OF bne])
    next
      case 2
      obtain a w3 where wa: "w' = a # w3" "a \<noteq> CHR ''_''" "a \<noteq> b"
        using 2 wb by (cases w') auto
      let ?z = "w' @ ''___'' @ ?y"
      have s1: "replace (block w) [x] (''___'' @ ?z) = ''___'' @ replace (block w) [x] ?z"
        using wa wb by (simp add: replace_step[OF bne] block_def)
      have hd: "hd (block w) \<notin> set w'" using 2(3) by (simp add: block_def)
      have s2: "replace (block w) [x] ?z = w' @ replace (block w) [x] (''___'' @ ?y)"
        using replace_skip_word[OF hd bne, of "[x]" "''___'' @ ?y"] by simp
      have s3: "replace (block w) [x] (''___'' @ ?y) = ''___'' @ replace (block w) [x] ?y"
        using u' by (simp add: replace_step[OF bne] block_def)
      have "replace (block w) [x] (block w' @ ?y) = block w' @ replace (block w) [x] ?y"
        using s1 s2 s3 by (simp add: block_def)
      then show ?thesis using 2(1) False IH by simp
    qed
  qed
qed

lemma replace_chr_append: "replace [a] new (x @ y) = replace [a] new x @ replace [a] new y"
  by (simp add: replace_chr)

lemma replace_chr_concat:
  "replace [a] new (concat (map f t)) = concat (map (\<lambda>c. replace [a] new (f c)) t)"
  by (induction t) (simp_all add: replace_chr_append)

lemma sanitize_escaped: "sanitize t = concat (map escaped t)"
proof -
  have 1: "replace ''-'' ''___minus___'' t =
      concat (map (\<lambda>c. if c = CHR ''-'' then ''___minus___'' else [c]) t)"
    by (rule replace_chr)
  have 2: "replace ''+'' ''___plus___'' (replace ''-'' ''___minus___'' t) =
      concat (map (\<lambda>c. if c = CHR ''-'' then ''___minus___''
                        else if c = CHR ''+'' then ''___plus___'' else [c]) t)"
    unfolding 1 replace_chr_concat by (rule arg_cong[where f = concat], rule map_cong) auto
  have 3: "replace '':'' ''___colon___'' (replace ''+'' ''___plus___'' (replace ''-'' ''___minus___'' t)) =
      concat (map (\<lambda>c. if c = CHR ''-'' then ''___minus___''
                        else if c = CHR ''+'' then ''___plus___''
                        else if c = CHR '':'' then ''___colon___'' else [c]) t)"
    unfolding 2 replace_chr_concat by (rule arg_cong[where f = concat], rule map_cong) auto
  show ?thesis unfolding sanitize_def 3
    by (rule arg_cong[where f = concat], rule map_cong) (auto simp: escaped_def block_def)
qed

lemma unsanitize_sanitize:
  assumes "\<not> sublist ''minus'' t" "\<not> sublist ''plus'' t" "\<not> sublist ''colon'' t"
  shows "unsanitize (sanitize t) = t"
proof -
  let ?p2 = "escaped(CHR ''-'' := ''-'')"
  let ?p1 = "?p2(CHR ''+'' := ''+'')"
  let ?p0 = "?p1(CHR '':'' := '':'')"
  have 1: "replace (block ''minus'') ''-'' (concat (map escaped t)) = concat (map ?p2 t)"
    by (rule unescape_pass[OF _ _ _ _ assms(1)]) (auto simp: escaped_def)
  have 2: "replace (block ''plus'') ''+'' (concat (map ?p2 t)) = concat (map ?p1 t)"
    by (rule unescape_pass[OF _ _ _ _ assms(2)]) (auto simp: escaped_def)
  have 3: "replace (block ''colon'') '':'' (concat (map ?p1 t)) = concat (map ?p0 t)"
    by (rule unescape_pass[OF _ _ _ _ assms(3)]) (auto simp: escaped_def)
  have 0: "?p0 = (\<lambda>c. [c])" by (auto simp: escaped_def fun_eq_iff)
  have b: "block ''minus'' = ''___minus___''" "block ''plus'' = ''___plus___''"
    "block ''colon'' = ''___colon___''" by (simp_all add: block_def)
  show ?thesis
    unfolding unsanitize_def sanitize_escaped b[symmetric] 1 2 3 0 by simp
qed

lemma bind_locals_get: "f \<in> set fs \<Longrightarrow> bind_locals fs ns f = Some (unsanitize f \<in> ns)"
  unfolding bind_locals_def by (induction fs) auto

lemma set_co_names: "set (co_names e) = set (expr_names e)"
  by (simp add: co_names_def)

lemma eval_truth:
  "set (expr_names e) \<subseteq> set fs \<Longrightarrow>
     eval e (bind_locals fs ns) = Inr (truth e (\<lambda>f. unsanitize f \<in> ns))"
  by (induction e) (auto simp: bind_locals_get)

lemma qualifies_truth:
  "qualifies use_gres fexp n =
     (case getInfo use_gres n of
        Inl e \<Rightarrow> Inl e
      | Inr toks \<Rightarrow> Inr (truth fexp (\<lambda>f. unsanitize f \<in> set toks)))"
  by (simp add: qualifies_def eval_truth set_co_names split: sum.splits)

text \<open>
  C2, as amended.  Every free variable of the compiled expression is bound to true
  exactly when its name, with the escape sequences written back, is in the token set of
  the node; evaluation never fails on a name, and the node qualifies exactly when the
  expression is true under these bindings.  Escaping a token and writing the escape
  sequences back gives the token again, provided the token contains none of the words
  \<^verbatim>\<open>minus\<close>, \<^verbatim>\<open>plus\<close> and \<^verbatim>\<open>colon\<close>.
\<close>

theorem free_variables_bound_by_membership:
  "(f \<in> set (co_names fexp) \<longrightarrow>
      bind_locals (co_names fexp) ns f = Some (unsanitize f \<in> ns)) \<and>
   qualifies use_gres fexp n =
     (case getInfo use_gres n of
        Inl e \<Rightarrow> Inl e
      | Inr toks \<Rightarrow> Inr (truth fexp (\<lambda>f. unsanitize f \<in> set toks))) \<and>
   (\<not> sublist ''minus'' t \<and> \<not> sublist ''plus'' t \<and> \<not> sublist ''colon'' t \<longrightarrow>
      unsanitize (sanitize t) = t)"
  using bind_locals_get qualifies_truth unsanitize_sanitize by blast

theorem free_variables_bound_by_membership_witness:
  "compile_features [''gpu and not v100-32gb''] = Inr sample_expr \<and>
   ''v100___minus___32gb'' \<in> set (co_names sample_expr) \<and>
   unsanitize ''v100___minus___32gb'' = ''v100-32gb'' \<and>
   bind_locals (co_names sample_expr) {''gpu'', ''skylake'', ''v100'', ''v100-32gb''}
     ''v100___minus___32gb'' = Some True \<and>
   qualifies False sample_expr workergpu055 = Inr False \<and>
   qualifies False sample_expr workergpu046 = Inr True \<and>
   unsanitize (sanitize ''v100-32gb'') = ''v100-32gb''"
proof -
  have c: "compile_features [''gpu and not v100-32gb''] = Inr sample_expr"
    by code_simp
  have m: "''v100___minus___32gb'' \<in> set (co_names sample_expr)"
    by (simp add: sample_expr_def co_names_def)
  have u: "unsanitize ''v100___minus___32gb'' = ''v100-32gb''"
    by (simp add: unsanitize_def)
  have w: "\<not> sublist ''minus'' ''v100-32gb'' \<and> \<not> sublist ''plus'' ''v100-32gb'' \<and>
           \<not> sublist ''colon'' ''v100-32gb''"
    by (simp add: sublist_Cons_right)
  have g: "getInfo False workergpu055 = Inr [''gpu'', ''skylake'', ''v100'', ''v100-32gb'', ''nvlink'', ''sxm2'']"
    "getInfo False workergpu046 = Inr [''gpu'', ''skylake'', ''v100'']"
    by (simp_all add: getInfo_def getInfoFeatures_def workergpu055_def workergpu046_def)
  have t: "unsanitize ''gpu'' = ''gpu''" by (simp add: unsanitize_def)
  note a = free_variables_bound_by_membership[of "''v100___minus___32gb''" sample_expr
      "{''gpu'', ''skylake'', ''v100'', ''v100-32gb''}" False workergpu055 "''v100-32gb''"]
  note b = free_variables_bound_by_membership[of "''v100___minus___32gb''" sample_expr
      "{}" False workergpu046 "''v100-32gb''"]
  have 1: "bind_locals (co_names sample_expr) {''gpu'', ''skylake'', ''v100'', ''v100-32gb''}
     ''v100___minus___32gb'' = Some True"
    using a m u by simp
  have 2: "qualifies False sample_expr workergpu055 = Inr False"
    using a g(1) u t by (simp add: sample_expr_def)
  have 3: "qualifies False sample_expr workergpu046 = Inr True"
    using b g(2) u t by (simp add: sample_expr_def)
  have 4: "unsanitize (sanitize ''v100-32gb'') = ''v100-32gb''"
    using a w by blast
  show ?thesis using c m u 1 2 3 4 by blast
qed

text \<open>
  C2 as stated fails: a token that holds an escape sequence is not recovered, so the
  expression \<^verbatim>\<open>a___minus___b\<close> selects the node with the feature \<^verbatim>\<open>a-b\<close> and not the
  node with the feature \<^verbatim>\<open>a___minus___b\<close>.
\<close>

theorem escape_not_recovered:
  "unsanitize (sanitize ''a___minus___b'') = ''a-b'' \<and>
   compile_features [''a___minus___b''] = Inr (Name ''a___minus___b'') \<and>
   qualifies False (Name ''a___minus___b'') underscored_node = Inr False \<and>
   qualifies False (Name ''a___minus___b'') dashed_node = Inr True"
  by code_simp

end
